theory Spec2Isabelle
  imports Complex_Main "HOL-Library.Word"
begin

unbundle bit_operations_syntax

section \<open>C types\<close>

text \<open>
  The programs are built for Linux on an LP64 machine: \<^verbatim>\<open>int\<close>, \<^verbatim>\<open>unsigned\<close> and
  \<^verbatim>\<open>pid_t\<close> have 32 bits, \<^verbatim>\<open>long\<close>, \<^verbatim>\<open>unsigned long\<close> and \<^verbatim>\<open>size_t\<close> have 64.
  A signed value is a word read through \<open>sint\<close>.
\<close>

type_synonym c_int = "32 word"
type_synonym c_uint = "32 word"
type_synonym c_long = "64 word"
type_synonym c_ulong = "64 word"

section \<open>The C library\<close>

text \<open>
  Character classes of the C locale and the reading of a run of decimal digits, shared by
  the conversions below.
\<close>

definition isspace :: "char \<Rightarrow> bool" where
  "isspace c \<longleftrightarrow> c \<in> set [CHR '' '', CHR 0x09, CHR 0x0A, CHR 0x0B, CHR 0x0C, CHR 0x0D]"

definition isdigit :: "char \<Rightarrow> bool" where
  "isdigit c \<longleftrightarrow> 48 \<le> (of_char c :: nat) \<and> (of_char c :: nat) \<le> 57"

definition digit_val :: "char \<Rightarrow> nat" where
  "digit_val c = of_char c - 48"

definition digits_val :: "string \<Rightarrow> nat" where
  "digits_val ds = foldl (\<lambda>a c. 10 * a + digit_val c) 0 ds"

definition minus_sign :: "string \<Rightarrow> bool" where
  "minus_sign s \<longleftrightarrow> s \<noteq> [] \<and> hd s = CHR ''-''"

definition skip_sign :: "string \<Rightarrow> string" where
  "skip_sign s = (if s \<noteq> [] \<and> (hd s = CHR ''-'' \<or> hd s = CHR ''+'') then tl s else s)"

text \<open>
  \<^verbatim>\<open>atoi\<close>: white space, an optional sign, then digits; anything else ends the number and
  no digits at all give 0. C leaves a value outside \<^verbatim>\<open>int\<close> undefined; here it wraps. The
  programs take \<^verbatim>\<open>atoi\<close> from their environment; this is the instance the examples use.
\<close>

definition atoi_c :: "string \<Rightarrow> c_int" where
  "atoi_c s =
     (let s1 = dropWhile isspace s;
          neg = minus_sign s1;
          s2 = skip_sign s1;
          v = int (digits_val (takeWhile isdigit s2))
      in word_of_int (if neg then - v else v))"

text \<open>Decimal output, as \<^verbatim>\<open>printf\<close> produces it for \<^verbatim>\<open>%u\<close>, \<^verbatim>\<open>%d\<close>, \<^verbatim>\<open>%ld\<close> and \<^verbatim>\<open>%09ld\<close>.\<close>

definition digit_char :: "nat \<Rightarrow> char" where
  "digit_char d = char_of (48 + d)"

fun dec_nat :: "nat \<Rightarrow> string" where
  "dec_nat n = (if n < 10 then [digit_char n] else dec_nat (n div 10) @ [digit_char (n mod 10)])"

declare dec_nat.simps [simp del]

definition dec_int :: "int \<Rightarrow> string" where
  "dec_int i = (if i < 0 then CHR ''-'' # dec_nat (nat (- i)) else dec_nat (nat i))"

definition fmt_u :: "c_uint \<Rightarrow> string" where
  "fmt_u u = dec_nat (unat u)"

definition fmt_d :: "c_int \<Rightarrow> string" where
  "fmt_d i = dec_int (sint i)"

definition fmt_ld :: "c_long \<Rightarrow> string" where
  "fmt_ld i = dec_int (sint i)"

definition zero_pad :: "nat \<Rightarrow> string \<Rightarrow> string" where
  "zero_pad w ds = replicate (w - length ds) CHR ''0'' @ ds"

definition fmt_09ld :: "c_long \<Rightarrow> string" where
  "fmt_09ld i =
     (if sint i < 0 then CHR ''-'' # zero_pad 8 (dec_nat (nat (- sint i)))
      else zero_pad 9 (dec_nat (nat (sint i))))"

text \<open>
  The conversion \<^verbatim>\<open>%u\<close> of the \<^verbatim>\<open>scanf\<close> family: white space, an optional sign, then at
  least one digit; the result is the value and the unread rest of the input. The value
  goes through \<^verbatim>\<open>strtoul\<close> (saturating at \<open>2\<^sup>6\<^sup>4 - 1\<close>, negated after a minus sign) and is
  then cut to 32 bits, which is what glibc does where C leaves an unrepresentable value
  undefined.
\<close>

definition strtoul_val :: "bool \<Rightarrow> nat \<Rightarrow> c_ulong" where
  "strtoul_val neg v = (if 2 ^ 64 \<le> v then - 1 else if neg then - of_nat v else of_nat v)"

definition scan_u :: "string \<Rightarrow> (c_uint \<times> string) option" where
  "scan_u s =
     (let s1 = dropWhile isspace s;
          neg = minus_sign s1;
          s2 = skip_sign s1;
          ds = takeWhile isdigit s2
      in if ds = [] then None
         else Some (ucast (strtoul_val neg (digits_val ds)), drop (length ds) s2))"

text \<open>\<^verbatim>\<open>sscanf(s, "%u", &val) == 1\<close> and the value stored.\<close>

definition sscanf_u :: "string \<Rightarrow> c_uint option" where
  "sscanf_u s = map_option fst (scan_u s)"

text \<open>
  \<^verbatim>\<open>fscanf(fp, "%127s %u", key, &val) == 2\<close> on the unread part of a file: the key (at
  most 127 characters that are not white space), the value, and what is left unread.
\<close>

definition fscanf_key_val :: "string \<Rightarrow> (string \<times> c_uint \<times> string) option" where
  "fscanf_key_val inp =
     (let s1 = dropWhile isspace inp;
          key = take 127 (takeWhile (\<lambda>c. \<not> isspace c) s1);
          s2 = dropWhile isspace (drop (length key) s1)
      in if key = [] then None
         else case scan_u s2 of None \<Rightarrow> None | Some (val, rest) \<Rightarrow> Some (key, val, rest))"

text \<open>
  \<^verbatim>\<open>fgets(line, n + 1, fp)\<close>: at most \<open>n\<close> characters, ending after the first newline; the
  line read and the unread rest. Then all the lines a loop
  \<^verbatim>\<open>while (fgets(line, 256, fp))\<close> sees.
\<close>

fun fgets :: "nat \<Rightarrow> string \<Rightarrow> string \<times> string" where
  "fgets 0 s = ([], s)"
| "fgets (Suc n) [] = ([], [])"
| "fgets (Suc n) (c # cs) =
     (if c = CHR 0x0A then ([c], cs) else (let (l, r) = fgets n cs in (c # l, r)))"

function fgets_all :: "string \<Rightarrow> string list" where
  "fgets_all s = (if s = [] then [] else (let (l, r) = fgets 255 s in l # fgets_all r))"
  by pat_completeness auto
termination
proof (relation "measure length")
  show "wf (measure length)"
    by simp
next
  fix s :: string and x l r
  assume ne: "s \<noteq> []" and x: "x = fgets 255 s" and lr: "(l, r) = x"
  have shorter: "length (snd (fgets n t)) \<le> length t" for n t
    by (induction n t rule: fgets.induct) (auto split: prod.splits)
  have strict: "length (snd (fgets (Suc n) (c # cs))) < length (c # cs)" for n c cs
    using shorter [of n cs] by (auto split: prod.splits)
  obtain c cs where s: "s = c # cs"
    using ne by (cases s) auto
  obtain n :: nat where n: "255 = Suc n"
    by (metis numeral_eq_Suc)
  have "length (snd (fgets 255 s)) < length s"
    unfolding s n by (rule strict)
  with x lr show "(r, s) \<in> measure length"
    by (metis in_measure snd_conv)
qed

declare fgets_all.simps [simp del]

text \<open>\<^verbatim>\<open>strstr(line, key) != NULL\<close>: the key occurs somewhere in the line.\<close>

fun strstr :: "string \<Rightarrow> string \<Rightarrow> bool" where
  "strstr [] key = (key = [])"
| "strstr (c # cs) key = (take (length key) (c # cs) = key \<or> strstr cs key)"

section \<open>The policy invocation tool (\<^verbatim>\<open>change_policy.c\<close>)\<close>

subsection \<open>The node mask\<close>

text \<open>
  The number of words handed to \<^verbatim>\<open>calloc\<close>:
  \<^verbatim>\<open>(nodecount + sizeof(unsigned long) * 8 - 1) / (sizeof(unsigned long) * 8)\<close>.
  The \<^verbatim>\<open>int\<close> is converted to \<^verbatim>\<open>size_t\<close> (sign extension) and the arithmetic is
  unsigned 64-bit arithmetic.
\<close>

definition mask_words :: "c_int \<Rightarrow> nat" where
  "mask_words nodecount = unat ((signed nodecount + 8 * 8 - 1 :: c_ulong) div (8 * 8))"

text \<open>
  The loop \<^verbatim>\<open>for (int i = 0; i < nodecount; i++) nmask[i / 64] |= 1UL << (i % 64);\<close>
  The counter stays below \<^verbatim>\<open>nodecount\<close>, so it never overflows.
\<close>

function set_node_bits :: "nat \<Rightarrow> int \<Rightarrow> c_ulong list \<Rightarrow> c_ulong list" where
  "set_node_bits i nodecount nmask =
     (if int i < nodecount
      then set_node_bits (Suc i) nodecount
             (nmask[i div 64 := nmask ! (i div 64) OR push_bit (i mod 64) 1])
      else nmask)"
  by pat_completeness auto
termination
  by (relation "measure (\<lambda>(i, nodecount, nmask). nat (nodecount - int i))") auto

declare set_node_bits.simps [simp del]

text \<open>The zeroed buffer of \<^verbatim>\<open>calloc\<close> after the loop.\<close>

definition node_mask :: "c_int \<Rightarrow> c_ulong list" where
  "node_mask nodecount =
     set_node_bits 0 (sint nodecount) (replicate (mask_words nodecount) 0)"

subsection \<open>The program\<close>

text \<open>
  What the tool gets from outside: the C library's \<^verbatim>\<open>atoi\<close>, whether \<^verbatim>\<open>calloc\<close> of a
  number of words succeeds (with the text \<^verbatim>\<open>perror\<close> prints when it does not), and the
  system call 470, which returns a \<^verbatim>\<open>long\<close> together with the description of
  \<^verbatim>\<open>errno\<close> that \<^verbatim>\<open>perror\<close> would print after it.
\<close>

record policy_os =
  p_atoi :: "string \<Rightarrow> c_int"
  p_calloc :: "nat \<Rightarrow> string option"
  p_syscall :: "c_int \<Rightarrow> c_int \<Rightarrow> c_ulong list \<Rightarrow> c_int \<Rightarrow> c_long \<times> string"

record policy_run =
  pr_status :: nat
  pr_stderr :: string
  pr_stdout :: string
  pr_request :: "(c_int \<times> c_int \<times> c_ulong list \<times> c_int) option"

definition program_name :: "string list \<Rightarrow> string" where
  "program_name argv = (case argv of [] \<Rightarrow> ''(null)'' | a # _ \<Rightarrow> a)"

definition change_policy_main :: "policy_os \<Rightarrow> string list \<Rightarrow> policy_run" where
  "change_policy_main os argv =
     (if length argv < 4 then
        \<lparr>pr_status = 1,
         pr_stderr = ''Usage: '' @ program_name argv @ '' <pid> <mode> <nodecount> \<newline>'',
         pr_stdout = [], pr_request = None\<rparr>
      else
        let pid = p_atoi os (argv ! 1);
            mode = p_atoi os (argv ! 2);
            nodecount = p_atoi os (argv ! 3)
        in case p_calloc os (mask_words nodecount) of
             Some err \<Rightarrow>
               \<lparr>pr_status = 1, pr_stderr = ''calloc: '' @ err @ ''\<newline>'',
                pr_stdout = [], pr_request = None\<rparr>
           | None \<Rightarrow>
               let nmask = node_mask nodecount;
                   (ret, err) = p_syscall os pid mode nmask nodecount
               in if ret \<noteq> 0 then
                    \<lparr>pr_status = 0, pr_stderr = ''syscall: '' @ err @ ''\<newline>'',
                     pr_stdout = [], pr_request = Some (pid, mode, nmask, nodecount)\<rparr>
                  else
                    \<lparr>pr_status = 0, pr_stderr = [],
                     pr_stdout = ''Syscall succeeded\<newline>'',
                     pr_request = Some (pid, mode, nmask, nodecount)\<rparr>)"

text \<open>
  An environment for examples: every allocation succeeds and the kernel knows no system
  call 470, so the request fails with \<^verbatim>\<open>ENOSYS\<close>.
\<close>

definition stock_kernel :: policy_os where
  "stock_kernel =
     \<lparr>p_atoi = atoi_c, p_calloc = (\<lambda>_. None),
      p_syscall = (\<lambda>_ _ _ _. (- 1, ''Function not implemented''))\<rparr>"

section \<open>Double-precision arithmetic\<close>

text \<open>
  The logger keeps its sampling interval in a \<^verbatim>\<open>double\<close> and divides and multiplies with
  it. A binary64 value is modelled by the rational number it denotes, or one of the
  infinities, or a NaN; the sign of a zero is not kept (the program never divides by
  zero: it rejects an interval that is \<open>\<le> 0\<close>). Each operation rounds the exact result
  to the nearest representable value, ties to the even significand, as IEEE 754
  prescribes: 53 bits of significand, subnormals below \<open>2\<^sup>-\<^sup>1\<^sup>0\<^sup>2\<^sup>2\<close>, infinity from \<open>2\<^sup>1\<^sup>0\<^sup>2\<^sup>4\<close> on.
\<close>

datatype double = Finite rat | PInf | NInf | NaN

definition pow2 :: "int \<Rightarrow> rat" where
  "pow2 e = (if 0 \<le> e then 2 ^ nat e else 1 / 2 ^ nat (- e))"

fun bitlen_nat :: "nat \<Rightarrow> nat" where
  "bitlen_nat n = (if n = 0 then 0 else Suc (bitlen_nat (n div 2)))"

declare bitlen_nat.simps [simp del]

text \<open>The binary exponent \<open>\<lfloor>log\<^sub>2 x\<rfloor>\<close> of a positive rational.\<close>

definition ilog2 :: "rat \<Rightarrow> int" where
  "ilog2 x = (if 1 \<le> x then int (bitlen_nat (nat \<lfloor>x\<rfloor>)) - 1
              else - int (bitlen_nat (nat (\<lceil>1 / x\<rceil> - 1))))"

definition round_nearest_even :: "rat \<Rightarrow> int" where
  "round_nearest_even x =
     (let f = \<lfloor>x\<rfloor>; d = x - of_int f
      in if d < 1 / 2 then f else if 1 / 2 < d then f + 1 else if even f then f else f + 1)"

definition round_double :: "rat \<Rightarrow> double" where
  "round_double x =
     (if x = 0 then Finite 0
      else let e = max (ilog2 \<bar>x\<bar>) (- 1022);
               q = pow2 (e - 52);
               y = of_int (round_nearest_even (x / q)) * q
           in if 2 ^ 1024 \<le> \<bar>y\<bar> then (if 0 < x then PInf else NInf) else Finite y)"

text \<open>Division and multiplication: the exact result, rounded once.\<close>

fun ddiv :: "double \<Rightarrow> double \<Rightarrow> double" where
  "ddiv NaN _ = NaN"
| "ddiv _ NaN = NaN"
| "ddiv (Finite a) (Finite b) =
     (if b = 0 then (if a = 0 then NaN else if 0 < a then PInf else NInf)
      else round_double (a / b))"
| "ddiv (Finite a) PInf = Finite 0"
| "ddiv (Finite a) NInf = Finite 0"
| "ddiv PInf (Finite b) = (if 0 \<le> b then PInf else NInf)"
| "ddiv NInf (Finite b) = (if 0 \<le> b then NInf else PInf)"
| "ddiv PInf PInf = NaN"
| "ddiv PInf NInf = NaN"
| "ddiv NInf PInf = NaN"
| "ddiv NInf NInf = NaN"

fun dmul :: "double \<Rightarrow> double \<Rightarrow> double" where
  "dmul NaN _ = NaN"
| "dmul _ NaN = NaN"
| "dmul (Finite a) (Finite b) = round_double (a * b)"
| "dmul (Finite a) PInf = (if a = 0 then NaN else if 0 < a then PInf else NInf)"
| "dmul (Finite a) NInf = (if a = 0 then NaN else if 0 < a then NInf else PInf)"
| "dmul PInf (Finite b) = (if b = 0 then NaN else if 0 < b then PInf else NInf)"
| "dmul NInf (Finite b) = (if b = 0 then NaN else if 0 < b then NInf else PInf)"
| "dmul PInf PInf = PInf"
| "dmul PInf NInf = NInf"
| "dmul NInf PInf = NInf"
| "dmul NInf NInf = PInf"

text \<open>The comparison \<^verbatim>\<open>x <= 0\<close>; it is false for a NaN.\<close>

fun d_le_zero :: "double \<Rightarrow> bool" where
  "d_le_zero (Finite a) = (a \<le> 0)"
| "d_le_zero PInf = False"
| "d_le_zero NInf = True"
| "d_le_zero NaN = False"

text \<open>
  Conversions. An \<^verbatim>\<open>int\<close> converts to \<^verbatim>\<open>double\<close> exactly. A \<^verbatim>\<open>double\<close> converts to an
  integer type by discarding the fraction; when the integral part does not fit, or the
  value is an infinity or a NaN, C gives the conversion no defined behaviour: \<open>None\<close>.
\<close>

definition double_of_int :: "c_int \<Rightarrow> double" where
  "double_of_int i = Finite (of_int (sint i))"

definition trunc_to_int :: "rat \<Rightarrow> int" where
  "trunc_to_int r = (if 0 \<le> r then \<lfloor>r\<rfloor> else \<lceil>r\<rceil>)"

fun int_of_double :: "double \<Rightarrow> c_int option" where
  "int_of_double (Finite r) =
     (if - (2 ^ 31) \<le> trunc_to_int r \<and> trunc_to_int r < 2 ^ 31 then Some (word_of_int (trunc_to_int r))
      else None)"
| "int_of_double _ = None"

fun long_of_double :: "double \<Rightarrow> c_long option" where
  "long_of_double (Finite r) =
     (if - (2 ^ 63) \<le> trunc_to_int r \<and> trunc_to_int r < 2 ^ 63 then Some (word_of_int (trunc_to_int r))
      else None)"
| "long_of_double _ = None"

text \<open>
  \<^verbatim>\<open>atof\<close> on a plain decimal numeral (white space, an optional sign, digits, an optional
  point and more digits): the nearest double. Exponents, hexadecimal numerals and the
  words \<^verbatim>\<open>inf\<close> and \<^verbatim>\<open>nan\<close>, which the C library also reads, are not covered; the logger
  takes \<^verbatim>\<open>atof\<close> from its environment, and this is the instance the examples use.
\<close>

definition atof_plain :: "string \<Rightarrow> double" where
  "atof_plain s =
     (let s1 = dropWhile isspace s;
          neg = minus_sign s1;
          s2 = skip_sign s1;
          ip = takeWhile isdigit s2;
          s3 = drop (length ip) s2;
          fp = (if s3 \<noteq> [] \<and> hd s3 = CHR ''.'' then takeWhile isdigit (tl s3) else []);
          v = of_nat (digits_val ip) + of_nat (digits_val fp) / 10 ^ length fp
      in round_double (if neg then - v else v))"

section \<open>The statistics logger (\<^verbatim>\<open>numa_stat_logger.c\<close>)\<close>

subsection \<open>The sampled records\<close>

record node_meminfo =
  mem_total :: c_uint
  mem_used :: c_uint

record node_vmstat =
  nr_free_pages :: c_uint
  numa_hit :: c_uint
  numa_miss :: c_uint
  numa_foreign :: c_uint
  numa_interleave :: c_uint
  numa_local :: c_uint
  numa_other :: c_uint

record sys_vmstat =
  numa_pte_updates :: c_uint
  numa_huge_pte_updates :: c_uint
  numa_pages_migrated :: c_uint
  pgmigrate_success :: c_uint
  pgmigrate_fail :: c_uint
  thp_migration_success :: c_uint
  thp_migration_fail :: c_uint
  thp_migration_split :: c_uint

subsection \<open>Reading the memory information of a node\<close>

text \<open>
  The files the logger reads are given by a function from a path to the content of the
  file, \<open>None\<close> when \<^verbatim>\<open>fopen\<close> fails on it. A file is taken to hold no NUL character.

  The two keys are written into buffers of 32 bytes, so \<^verbatim>\<open>snprintf\<close> keeps at most 31
  characters. The loop over the lines carries \<^verbatim>\<open>found_total\<close> and \<^verbatim>\<open>found_free\<close>; the
  number is read at \<^verbatim>\<open>line + strlen(key)\<close>, wherever in the line the key was found.
\<close>

fun meminfo_lines ::
  "string \<Rightarrow> string \<Rightarrow> string list \<Rightarrow> bool \<Rightarrow> bool \<Rightarrow> node_meminfo \<Rightarrow> node_meminfo" where
  "meminfo_lines memtotal_key memfree_key [] found_total found_free nm = nm"
| "meminfo_lines memtotal_key memfree_key (line # rest) found_total found_free nm =
     (let (nm', found_total', found_free') =
            (if \<not> found_total \<and> strstr line memtotal_key then
               (case sscanf_u (drop (length memtotal_key) line) of
                  Some val \<Rightarrow> (nm\<lparr>mem_total := val\<rparr>, True, found_free)
                | None \<Rightarrow> (nm, found_total, found_free))
             else if \<not> found_free \<and> strstr line memfree_key then
               (case sscanf_u (drop (length memfree_key) line) of
                  Some val \<Rightarrow> (nm\<lparr>mem_used := mem_total nm - val\<rparr>, found_total, True)
                | None \<Rightarrow> (nm, found_total, found_free))
             else (nm, found_total, found_free))
      in if found_total' \<and> found_free' then nm'
         else meminfo_lines memtotal_key memfree_key rest found_total' found_free' nm')"

definition parse_node_meminfo ::
  "(string \<Rightarrow> string option) \<Rightarrow> node_meminfo \<Rightarrow> string \<Rightarrow> c_int \<Rightarrow> node_meminfo" where
  "parse_node_meminfo fopen nm path nodeID =
     (case fopen path of
        None \<Rightarrow> nm
      | Some content \<Rightarrow>
          meminfo_lines (take 31 (''Node '' @ fmt_d nodeID @ '' MemTotal:''))
            (take 31 (''Node '' @ fmt_d nodeID @ '' MemFree:''))
            (fgets_all content) False False nm)"

subsection \<open>Reading counters\<close>

text \<open>
  Both counter files are read by the same loop:
  \<^verbatim>\<open>while (fscanf(fp, "%127s %u", key, &val) == 2) { ...; if (found_count == TOTAL_FIELDS) break; }\<close>
  Every round that goes on reads at least the key, so the unread input gets shorter.
\<close>

lemma scan_u_rest: "scan_u s = Some (v, r) \<Longrightarrow> length r \<le> length s"
proof -
  assume a: "scan_u s = Some (v, r)"
  let ?s2 = "skip_sign (dropWhile isspace s)"
  have "r = drop (length (takeWhile isdigit ?s2)) ?s2"
    using a by (simp add: scan_u_def Let_def split: if_splits)
  then have "length r \<le> length ?s2"
    by simp
  also have "\<dots> \<le> length (dropWhile isspace s)"
    by (simp add: skip_sign_def)
  also have "\<dots> \<le> length s"
    by (rule length_dropWhile_le)
  finally show ?thesis .
qed

lemma fscanf_key_val_rest:
  assumes "fscanf_key_val inp = Some (key, val, rest)"
  shows "length rest < length inp"
proof -
  let ?s1 = "dropWhile isspace inp"
  let ?key = "take 127 (takeWhile (\<lambda>c. \<not> isspace c) ?s1)"
  let ?s2 = "dropWhile isspace (drop (length ?key) ?s1)"
  from assms have ne: "?key \<noteq> []" and sc: "scan_u ?s2 = Some (val, rest)"
    by (auto simp: fscanf_key_val_def Let_def split: if_splits option.splits)
  from ne have "0 < length ?key"
    by (rule length_greater_0_conv [THEN iffD2])
  moreover have "length ?key \<le> length (takeWhile (\<lambda>c. \<not> isspace c) ?s1)"
    by simp
  moreover have "length (takeWhile (\<lambda>c. \<not> isspace c) ?s1) \<le> length ?s1"
    by (rule length_takeWhile_le)
  ultimately have "length (drop (length ?key) ?s1) < length ?s1"
    unfolding length_drop by linarith
  moreover have "length ?s2 \<le> length (drop (length ?key) ?s1)"
    by (rule length_dropWhile_le)
  moreover have "length ?s1 \<le> length inp"
    by (rule length_dropWhile_le)
  moreover have "length rest \<le> length ?s2"
    using sc by (rule scan_u_rest)
  ultimately show ?thesis
    by linarith
qed

function fscanf_loop ::
  "(string \<Rightarrow> c_uint \<Rightarrow> 's \<Rightarrow> 's) \<Rightarrow> ('s \<Rightarrow> bool) \<Rightarrow> string \<Rightarrow> 's \<Rightarrow> 's" where
  "fscanf_loop entry all_found inp s =
     (case fscanf_key_val inp of
        None \<Rightarrow> s
      | Some (key, val, rest) \<Rightarrow>
          (let s' = entry key val s
           in if all_found s' then s' else fscanf_loop entry all_found rest s'))"
  by pat_completeness auto
termination
  by (relation "measure (\<lambda>(entry, all_found, inp, s). length inp)")
     (auto dest: fscanf_key_val_rest)

declare fscanf_loop.simps [simp del]

text \<open>The per-node counters: the record being filled, the seven flags and the count.\<close>

record nv_scan =
  nvs :: node_vmstat
  f_nr_free_pages :: bool
  f_numa_hit :: bool
  f_numa_miss :: bool
  f_numa_foreign :: bool
  f_numa_interleave :: bool
  f_numa_local :: bool
  f_numa_other :: bool
  nv_found_count :: nat

definition node_vmstat_entry :: "string \<Rightarrow> c_uint \<Rightarrow> nv_scan \<Rightarrow> nv_scan" where
  "node_vmstat_entry key val s =
     (if \<not> f_nr_free_pages s \<and> key = ''nr_free_pages'' then
        s\<lparr>nvs := (nvs s)\<lparr>nr_free_pages := val\<rparr>, f_nr_free_pages := True,
          nv_found_count := nv_found_count s + 1\<rparr>
      else if \<not> f_numa_hit s \<and> key = ''numa_hit'' then
        s\<lparr>nvs := (nvs s)\<lparr>numa_hit := val\<rparr>, f_numa_hit := True,
          nv_found_count := nv_found_count s + 1\<rparr>
      else if \<not> f_numa_miss s \<and> key = ''numa_miss'' then
        s\<lparr>nvs := (nvs s)\<lparr>numa_miss := val\<rparr>, f_numa_miss := True,
          nv_found_count := nv_found_count s + 1\<rparr>
      else if \<not> f_numa_foreign s \<and> key = ''numa_foreign'' then
        s\<lparr>nvs := (nvs s)\<lparr>numa_foreign := val\<rparr>, f_numa_foreign := True,
          nv_found_count := nv_found_count s + 1\<rparr>
      else if \<not> f_numa_interleave s \<and> key = ''numa_interleave'' then
        s\<lparr>nvs := (nvs s)\<lparr>numa_interleave := val\<rparr>, f_numa_interleave := True,
          nv_found_count := nv_found_count s + 1\<rparr>
      else if \<not> f_numa_local s \<and> key = ''numa_local'' then
        s\<lparr>nvs := (nvs s)\<lparr>numa_local := val\<rparr>, f_numa_local := True,
          nv_found_count := nv_found_count s + 1\<rparr>
      else if \<not> f_numa_other s \<and> key = ''numa_other'' then
        s\<lparr>nvs := (nvs s)\<lparr>numa_other := val\<rparr>, f_numa_other := True,
          nv_found_count := nv_found_count s + 1\<rparr>
      else s)"

definition parse_node_vmstat ::
  "(string \<Rightarrow> string option) \<Rightarrow> node_vmstat \<Rightarrow> string \<Rightarrow> node_vmstat" where
  "parse_node_vmstat fopen nv path =
     (case fopen path of
        None \<Rightarrow> nv
      | Some content \<Rightarrow>
          nvs (fscanf_loop node_vmstat_entry (\<lambda>s. nv_found_count s = 7) content
                 \<lparr>nvs = nv, f_nr_free_pages = False, f_numa_hit = False, f_numa_miss = False,
                  f_numa_foreign = False, f_numa_interleave = False, f_numa_local = False,
                  f_numa_other = False, nv_found_count = 0\<rparr>))"

text \<open>The system-wide counters: eight flags.\<close>

record sv_scan =
  svs :: sys_vmstat
  f_numa_pte_updates :: bool
  f_numa_huge_pte_updates :: bool
  f_numa_pages_migrated :: bool
  f_pgmigrate_success :: bool
  f_pgmigrate_fail :: bool
  f_thp_migration_success :: bool
  f_thp_migration_fail :: bool
  f_thp_migration_split :: bool
  sv_found_count :: nat

definition sys_vmstat_entry :: "string \<Rightarrow> c_uint \<Rightarrow> sv_scan \<Rightarrow> sv_scan" where
  "sys_vmstat_entry key val s =
     (if \<not> f_numa_pte_updates s \<and> key = ''numa_pte_updates'' then
        s\<lparr>svs := (svs s)\<lparr>numa_pte_updates := val\<rparr>, f_numa_pte_updates := True,
          sv_found_count := sv_found_count s + 1\<rparr>
      else if \<not> f_numa_huge_pte_updates s \<and> key = ''numa_huge_pte_updates'' then
        s\<lparr>svs := (svs s)\<lparr>numa_huge_pte_updates := val\<rparr>, f_numa_huge_pte_updates := True,
          sv_found_count := sv_found_count s + 1\<rparr>
      else if \<not> f_numa_pages_migrated s \<and> key = ''numa_pages_migrated'' then
        s\<lparr>svs := (svs s)\<lparr>numa_pages_migrated := val\<rparr>, f_numa_pages_migrated := True,
          sv_found_count := sv_found_count s + 1\<rparr>
      else if \<not> f_pgmigrate_success s \<and> key = ''pgmigrate_success'' then
        s\<lparr>svs := (svs s)\<lparr>pgmigrate_success := val\<rparr>, f_pgmigrate_success := True,
          sv_found_count := sv_found_count s + 1\<rparr>
      else if \<not> f_pgmigrate_fail s \<and> key = ''pgmigrate_fail'' then
        s\<lparr>svs := (svs s)\<lparr>pgmigrate_fail := val\<rparr>, f_pgmigrate_fail := True,
          sv_found_count := sv_found_count s + 1\<rparr>
      else if \<not> f_thp_migration_success s \<and> key = ''thp_migration_success'' then
        s\<lparr>svs := (svs s)\<lparr>thp_migration_success := val\<rparr>, f_thp_migration_success := True,
          sv_found_count := sv_found_count s + 1\<rparr>
      else if \<not> f_thp_migration_fail s \<and> key = ''thp_migration_fail'' then
        s\<lparr>svs := (svs s)\<lparr>thp_migration_fail := val\<rparr>, f_thp_migration_fail := True,
          sv_found_count := sv_found_count s + 1\<rparr>
      else if \<not> f_thp_migration_split s \<and> key = ''thp_migration_split'' then
        s\<lparr>svs := (svs s)\<lparr>thp_migration_split := val\<rparr>, f_thp_migration_split := True,
          sv_found_count := sv_found_count s + 1\<rparr>
      else s)"

definition parse_sys_vmstat ::
  "(string \<Rightarrow> string option) \<Rightarrow> sys_vmstat \<Rightarrow> string \<Rightarrow> sys_vmstat" where
  "parse_sys_vmstat fopen sv path =
     (case fopen path of
        None \<Rightarrow> sv
      | Some content \<Rightarrow>
          svs (fscanf_loop sys_vmstat_entry (\<lambda>s. sv_found_count s = 8) content
                 \<lparr>svs = sv, f_numa_pte_updates = False, f_numa_huge_pte_updates = False,
                  f_numa_pages_migrated = False, f_pgmigrate_success = False,
                  f_pgmigrate_fail = False, f_thp_migration_success = False,
                  f_thp_migration_fail = False, f_thp_migration_split = False,
                  sv_found_count = 0\<rparr>))"

subsection \<open>The CSV file\<close>

text \<open>A loop \<^verbatim>\<open>for (int i = 0; i < numa_count; i++) fprintf(fp, ...)\<close> and what it prints.\<close>

definition for_nodes :: "c_int \<Rightarrow> (nat \<Rightarrow> string) \<Rightarrow> string" where
  "for_nodes numa_count f = concat (map f [0..<nat (sint numa_count)])"

definition sys_cols :: "string list" where
  "sys_cols =
     [''numa_pte_updates'', ''numa_huge_pte_updates'', ''numa_pages_migrated'',
      ''pgmigrate_success'', ''pgmigrate_fail'', ''thp_migration_success'',
      ''thp_migration_fail'', ''thp_migration_split'']"

definition csv_header :: "c_int \<Rightarrow> string" where
  "csv_header numa_count =
     ''timestamp''
     @ for_nodes numa_count (\<lambda>i.
         '',node_'' @ dec_nat i @ ''_mem_total,node_'' @ dec_nat i @ ''_mem_used'')
     @ for_nodes numa_count (\<lambda>i.
         '',node_'' @ dec_nat i @ ''_nr_free_pages,node_'' @ dec_nat i @ ''_numa_hit,node_''
         @ dec_nat i @ ''_numa_miss,node_'' @ dec_nat i @ ''_numa_foreign,node_''
         @ dec_nat i @ ''_numa_interleave,node_'' @ dec_nat i @ ''_numa_local,node_''
         @ dec_nat i @ ''_numa_other'')
     @ concat (map (\<lambda>c. '','' @ c) sys_cols)
     @ ''\<newline>''"

text \<open>
  The file \<^verbatim>\<open>numa_stat_log.csv\<close> is \<open>None\<close> when it does not exist and its content
  otherwise; a file that exists can be opened for reading. Whether it can be created or
  opened for writing is a matter of the directory and of permissions:
  \<open>can_write\<close>. The result is the diagnostic of \<^verbatim>\<open>exit(1)\<close>, or the content of the file
  when the function returns.
\<close>

datatype diag =
    Usage string
  | Invalid_numa_count c_int
  | Invalid_interval_sec double
  | Missing_duration
  | Invalid_duration_sec c_int
  | Missing_command
  | Unknown_mode string
  | Failed_to_allocate
  | Perror_fopen
  | Perror_fopen_append
  | Perror_execvp

definition write_csv_header :: "string option \<Rightarrow> bool \<Rightarrow> c_int \<Rightarrow> diag + string" where
  "write_csv_header file can_write numa_count =
     (case file of
        Some content \<Rightarrow> Inr content
      | None \<Rightarrow> if \<not> can_write then Inl Perror_fopen else Inr (csv_header numa_count))"

record timespec =
  tv_sec :: c_long
  tv_nsec :: c_long

definition csv_row ::
  "timespec \<Rightarrow> node_meminfo list \<Rightarrow> node_vmstat list \<Rightarrow> sys_vmstat \<Rightarrow> c_int \<Rightarrow> string" where
  "csv_row ts nm nv sv numa_count =
     fmt_ld (tv_sec ts) @ ''.'' @ fmt_09ld (tv_nsec ts)
     @ for_nodes numa_count (\<lambda>i.
         '','' @ fmt_u (mem_total (nm ! i)) @ '','' @ fmt_u (mem_used (nm ! i)))
     @ for_nodes numa_count (\<lambda>i.
         '','' @ fmt_u (nr_free_pages (nv ! i)) @ '','' @ fmt_u (numa_hit (nv ! i))
         @ '','' @ fmt_u (numa_miss (nv ! i)) @ '','' @ fmt_u (numa_foreign (nv ! i))
         @ '','' @ fmt_u (numa_interleave (nv ! i)) @ '','' @ fmt_u (numa_local (nv ! i))
         @ '','' @ fmt_u (numa_other (nv ! i)))
     @ '','' @ fmt_u (numa_pte_updates sv) @ '','' @ fmt_u (numa_huge_pte_updates sv)
     @ '','' @ fmt_u (numa_pages_migrated sv) @ '','' @ fmt_u (pgmigrate_success sv)
     @ '','' @ fmt_u (pgmigrate_fail sv) @ '','' @ fmt_u (thp_migration_success sv)
     @ '','' @ fmt_u (thp_migration_fail sv) @ '','' @ fmt_u (thp_migration_split sv)
     @ ''\<newline>''"

text \<open>Splitting a line on commas, as a reader of the CSV file does.\<close>

fun split_commas :: "string \<Rightarrow> string list" where
  "split_commas [] = [[]]"
| "split_commas (c # cs) =
     (if c = CHR '','' then [] # split_commas cs
      else (case split_commas cs of f # fs \<Rightarrow> (c # f) # fs | [] \<Rightarrow> [[c]]))"

definition commas :: "string \<Rightarrow> nat" where
  "commas s = length (filter (\<lambda>c. c = CHR '','') s)"

subsection \<open>The operating system, as the logger sees it\<close>

text \<open>
  \<^verbatim>\<open>nanosleep\<close>: a request whose \<^verbatim>\<open>tv_nsec\<close> is outside \<open>0 \<dots> 999999999\<close>, or whose
  \<^verbatim>\<open>tv_sec\<close> is negative, fails with \<^verbatim>\<open>EINVAL\<close> and suspends nothing (\<open>None\<close>); any other
  request suspends the caller for that many nanoseconds.
\<close>

definition nanosleep :: "timespec \<Rightarrow> nat option" where
  "nanosleep req =
     (if sint (tv_sec req) < 0 \<or> sint (tv_nsec req) < 0 \<or> 999999999 < sint (tv_nsec req)
      then None
      else Some (nat (sint (tv_sec req)) * 1000000000 + nat (sint (tv_nsec req))))"

text \<open>
  The environment of one run:
  \<^item> the C library's \<^verbatim>\<open>atoi\<close> and \<^verbatim>\<open>atof\<close>;
  \<^item> whether \<^verbatim>\<open>malloc\<close> of a number of bytes succeeds, and what the fresh blocks and
    the automatic variable \<^verbatim>\<open>sv\<close> hold before anything is stored in them (C leaves
    that open);
  \<^item> the output file before the run, and whether it can be created and appended to;
  \<^item> the files under \<^verbatim>\<open>/sys\<close> and \<^verbatim>\<open>/proc\<close> as they are during each iteration;
  \<^item> the reading of the realtime clock in each iteration;
  \<^item> what \<^verbatim>\<open>fork\<close> returns, and the first iteration whose check finds the child
    terminated (\<open>None\<close> when the child never terminates).
\<close>

record logger_os =
  l_atoi :: "string \<Rightarrow> c_int"
  l_atof :: "string \<Rightarrow> double"
  l_malloc :: "nat \<Rightarrow> bool"
  l_heap_nm :: "nat \<Rightarrow> node_meminfo"
  l_heap_nv :: "nat \<Rightarrow> node_vmstat"
  l_stack_sv :: sys_vmstat
  l_csv :: "string option"
  l_csv_create :: bool
  l_csv_append :: bool
  l_files :: "nat \<Rightarrow> string \<Rightarrow> string option"
  l_clock :: "nat \<Rightarrow> timespec"
  l_fork :: c_int
  l_child_exit :: "nat option"
  l_execvp :: "string list \<Rightarrow> bool"

text \<open>
  The child as the parent's \<^verbatim>\<open>waitpid\<close> sees it. With \<^verbatim>\<open>WNOHANG\<close> the call returns 0
  while the child runs, the child's process id once it has terminated (the child is
  reaped by that call), and \<open>-1\<close> when there is no child left to wait for. Without
  \<^verbatim>\<open>WNOHANG\<close> the call blocks while the child runs: \<open>None\<close> when it never terminates.
\<close>

datatype child = No_child | Child_running | Child_reaped

definition waitpid_nohang :: "logger_os \<Rightarrow> nat \<Rightarrow> child \<Rightarrow> c_int \<times> child" where
  "waitpid_nohang os iter ch =
     (case ch of
        Child_running \<Rightarrow>
          (case l_child_exit os of
             Some e \<Rightarrow> if e \<le> iter then (l_fork os, Child_reaped) else (0, Child_running)
           | None \<Rightarrow> (0, Child_running))
      | _ \<Rightarrow> (- 1, ch))"

definition waitpid_blocking :: "logger_os \<Rightarrow> child \<Rightarrow> (c_int \<times> child) option" where
  "waitpid_blocking os ch =
     (case ch of
        Child_running \<Rightarrow>
          (case l_child_exit os of
             Some e \<Rightarrow> Some (l_fork os, Child_reaped)
           | None \<Rightarrow> None)
      | _ \<Rightarrow> Some (- 1, ch))"

subsection \<open>The sampling loop\<close>

datatype event =
    Wrote_row string
  | Nanosleep timespec "nat option"
  | Waitpid_nohang c_int
  | Waitpid_blocking c_int

record sampler =
  s_nm :: "node_meminfo list"
  s_nv :: "node_vmstat list"
  s_sv :: sys_vmstat
  s_csv :: string
  s_child :: child
  s_events :: "event list"

record config =
  c_numa_count :: c_int
  c_interval_sec :: double
  c_use_duration :: bool
  c_iterations :: c_int
  c_use_run :: bool

definition meminfo_path :: "nat \<Rightarrow> string" where
  "meminfo_path i = take 127 (''/sys/devices/system/node/node'' @ dec_nat i @ ''/meminfo'')"

definition vmstat_path :: "nat \<Rightarrow> string" where
  "vmstat_path i = take 127 (''/sys/devices/system/node/node'' @ dec_nat i @ ''/vmstat'')"

text \<open>The inner loop over the nodes, from node \<open>i\<close> on.\<close>

function parse_all_nodes ::
  "(string \<Rightarrow> string option) \<Rightarrow> c_int \<Rightarrow> nat \<Rightarrow> node_meminfo list \<times> node_vmstat list
   \<Rightarrow> node_meminfo list \<times> node_vmstat list" where
  "parse_all_nodes fopen numa_count i (nm, nv) =
     (if int i < sint numa_count
      then parse_all_nodes fopen numa_count (Suc i)
             (nm[i := parse_node_meminfo fopen (nm ! i) (meminfo_path i) (of_nat i)],
              nv[i := parse_node_vmstat fopen (nv ! i) (vmstat_path i)])
      else (nm, nv))"
  by pat_completeness auto
termination
  by (relation "measure (\<lambda>(fopen, numa_count, i, a). nat (sint numa_count - int i))") auto

declare parse_all_nodes.simps [simp del]

text \<open>
  The request of each iteration: \<^verbatim>\<open>struct timespec ts_sleep = { 0, (long)(interval_sec * 1e9) }\<close>.
\<close>

definition sleep_request :: "double \<Rightarrow> timespec option" where
  "sleep_request interval_sec =
     map_option (\<lambda>ns. \<lparr>tv_sec = 0, tv_nsec = ns\<rparr>)
       (long_of_double (dmul interval_sec (Finite 1000000000)))"

text \<open>
  The loop \<^verbatim>\<open>for (int iter = 0; use_duration ? (iter < iterations) : 1; iter++)\<close>: first
  one execution of its body, which goes on to the next iteration, leaves the loop by
  \<^verbatim>\<open>break\<close>, or stops at the conversion that has no defined result. In run mode the loop
  may go on for ever, so it takes fuel, one unit for each test of the loop condition,
  and says how it stopped. In duration mode the counter stays below \<^verbatim>\<open>iterations\<close>; in
  run mode its value is never used.
\<close>

datatype step = Next | Break | Undefined_sleep

definition loop_body :: "logger_os \<Rightarrow> config \<Rightarrow> nat \<Rightarrow> sampler \<Rightarrow> sampler \<times> step" where
  "loop_body os c iter st =
     (let (nm, nv) = parse_all_nodes (l_files os iter) (c_numa_count c) 0 (s_nm st, s_nv st);
          sv = parse_sys_vmstat (l_files os iter) (s_sv st) ''/proc/vmstat'';
          row = csv_row (l_clock os iter) nm nv sv (c_numa_count c);
          st1 = st\<lparr>s_nm := nm, s_nv := nv, s_sv := sv, s_csv := s_csv st @ row,
                   s_events := s_events st @ [Wrote_row row]\<rparr>
      in case sleep_request (c_interval_sec c) of
           None \<Rightarrow> (st1, Undefined_sleep)
         | Some ts_sleep \<Rightarrow>
             let st2 = st1\<lparr>s_events := s_events st1 @ [Nanosleep ts_sleep (nanosleep ts_sleep)]\<rparr>
             in if c_use_run c then
                  let (ret, ch) = waitpid_nohang os iter (s_child st2);
                      st3 = st2\<lparr>s_child := ch, s_events := s_events st2 @ [Waitpid_nohang ret]\<rparr>
                  in if ret \<noteq> 0 then (st3, Break) else (st3, Next)
                else (st2, Next))"

datatype progress = Finished | Out_of_fuel | Undefined_conversion

fun sampling_loop ::
  "logger_os \<Rightarrow> config \<Rightarrow> nat \<Rightarrow> nat \<Rightarrow> sampler \<Rightarrow> sampler \<times> progress" where
  "sampling_loop os c 0 iter st = (st, Out_of_fuel)"
| "sampling_loop os c (Suc fuel) iter st =
     (if c_use_duration c \<and> \<not> int iter < sint (c_iterations c) then (st, Finished)
      else
        case loop_body os c iter st of
          (st', Break) \<Rightarrow> (st', Finished)
        | (st', Undefined_sleep) \<Rightarrow> (st', Undefined_conversion)
        | (st', Next) \<Rightarrow> sampling_loop os c fuel (Suc iter) st')"

subsection \<open>The program\<close>

text \<open>
  How a run ends: with an exit status; with the process image replaced by the
  monitored command (in the child, after \<^verbatim>\<open>fork\<close> returned 0 there); with a conversion
  that C leaves undefined; or not within the fuel given.
\<close>

datatype ending = Exit nat | Exec "string list" | Undefined | Unfinished

record logger_run =
  lr_end :: ending
  lr_stderr :: "diag list"
  lr_csv :: "string option"
  lr_events :: "event list"

definition fatal :: "diag \<Rightarrow> string option \<Rightarrow> logger_run" where
  "fatal d file = \<lparr>lr_end = Exit 1, lr_stderr = [d], lr_csv = file, lr_events = []\<rparr>"

text \<open>
  The records as \<^verbatim>\<open>malloc\<close> and the stack leave them, the output file as it is when
  it has been opened for appending, and the child just forked (or none).
\<close>

definition initial_state :: "logger_os \<Rightarrow> config \<Rightarrow> string \<Rightarrow> sampler" where
  "initial_state os c content =
     \<lparr>s_nm = map (l_heap_nm os) [0..<nat (sint (c_numa_count c))],
      s_nv = map (l_heap_nv os) [0..<nat (sint (c_numa_count c))],
      s_sv = l_stack_sv os, s_csv = content,
      s_child = (if c_use_run c \<and> 0 <s l_fork os then Child_running else No_child),
      s_events = []\<rparr>"

text \<open>The end of \<^verbatim>\<open>main\<close>, after the loop: in run mode one blocking \<^verbatim>\<open>waitpid\<close>.\<close>

definition after_loop :: "logger_os \<Rightarrow> config \<Rightarrow> sampler \<times> progress \<Rightarrow> logger_run" where
  "after_loop os c res =
     (case res of (st, how) \<Rightarrow>
        (case how of
           Out_of_fuel \<Rightarrow>
             \<lparr>lr_end = Unfinished, lr_stderr = [], lr_csv = Some (s_csv st),
              lr_events = s_events st\<rparr>
         | Undefined_conversion \<Rightarrow>
             \<lparr>lr_end = Undefined, lr_stderr = [], lr_csv = Some (s_csv st),
              lr_events = s_events st\<rparr>
         | Finished \<Rightarrow>
             if c_use_run c then
               (case waitpid_blocking os (s_child st) of
                  None \<Rightarrow>
                    \<lparr>lr_end = Unfinished, lr_stderr = [], lr_csv = Some (s_csv st),
                     lr_events = s_events st\<rparr>
                | Some (ret, ch) \<Rightarrow>
                    \<lparr>lr_end = Exit 0, lr_stderr = [], lr_csv = Some (s_csv st),
                     lr_events = s_events st @ [Waitpid_blocking ret]\<rparr>)
             else
               \<lparr>lr_end = Exit 0, lr_stderr = [], lr_csv = Some (s_csv st),
                lr_events = s_events st\<rparr>))"

definition run_sampling :: "logger_os \<Rightarrow> nat \<Rightarrow> config \<Rightarrow> string \<Rightarrow> logger_run" where
  "run_sampling os fuel c content =
     after_loop os c (sampling_loop os c fuel 0 (initial_state os c content))"

text \<open>The part of \<^verbatim>\<open>main\<close> after the arguments have been read.\<close>

definition logger_sample ::
  "logger_os \<Rightarrow> nat \<Rightarrow> c_int \<Rightarrow> double \<Rightarrow> bool \<Rightarrow> c_int \<Rightarrow> bool \<Rightarrow> string list \<Rightarrow> logger_run" where
  "logger_sample os fuel numa_count interval_sec use_duration duration_sec use_run run_argv =
     (case (if use_duration then int_of_double (ddiv (double_of_int duration_sec) interval_sec)
            else Some 0) of
        None \<Rightarrow> \<lparr>lr_end = Undefined, lr_stderr = [], lr_csv = l_csv os, lr_events = []\<rparr>
      | Some iterations \<Rightarrow>
          if \<not> l_malloc os (8 * nat (sint numa_count)) \<or> \<not> l_malloc os (28 * nat (sint numa_count))
          then fatal Failed_to_allocate (l_csv os)
          else
            case write_csv_header (l_csv os) (l_csv_create os) numa_count of
              Inl d \<Rightarrow> fatal d (l_csv os)
            | Inr content \<Rightarrow>
                if \<not> l_csv_append os then fatal Perror_fopen_append (Some content)
                else if use_run \<and> l_fork os = 0 then
                  (if l_execvp os run_argv
                   then \<lparr>lr_end = Exec run_argv, lr_stderr = [], lr_csv = Some content,
                         lr_events = []\<rparr>
                   else fatal Perror_execvp (Some content))
                else
                  run_sampling os fuel
                    \<lparr>c_numa_count = numa_count, c_interval_sec = interval_sec,
                     c_use_duration = use_duration, c_iterations = iterations,
                     c_use_run = use_run\<rparr>
                    content)"

definition logger_main :: "logger_os \<Rightarrow> nat \<Rightarrow> string list \<Rightarrow> logger_run" where
  "logger_main os fuel argv =
     (if length argv < 4 then fatal (Usage (program_name argv)) (l_csv os)
      else
        let numa_count = l_atoi os (argv ! 1) in
        if sint numa_count \<le> 0 then fatal (Invalid_numa_count numa_count) (l_csv os)
        else
          let interval_sec = l_atof os (argv ! 2) in
          if d_le_zero interval_sec then fatal (Invalid_interval_sec interval_sec) (l_csv os)
          else if argv ! 3 = ''-d'' then
            (if length argv < 5 then fatal Missing_duration (l_csv os)
             else
               let duration_sec = l_atoi os (argv ! 4) in
               if sint duration_sec \<le> 0 then fatal (Invalid_duration_sec duration_sec) (l_csv os)
               else logger_sample os fuel numa_count interval_sec True duration_sec False [])
          else if argv ! 3 = ''-r'' then
            (if length argv < 5 then fatal Missing_command (l_csv os)
             else logger_sample os fuel numa_count interval_sec False 0 True (drop 4 argv))
          else fatal (Unknown_mode (argv ! 3)) (l_csv os))"

text \<open>
  The rows a run wrote, the outcomes of its calls of \<^verbatim>\<open>nanosleep\<close> and the results of
  its calls of \<^verbatim>\<open>waitpid\<close>, each in order.
\<close>

definition rows_of :: "event list \<Rightarrow> string list" where
  "rows_of evs = concat (map (\<lambda>e. case e of Wrote_row r \<Rightarrow> [r] | _ \<Rightarrow> []) evs)"

definition sleeps_of :: "event list \<Rightarrow> nat option list" where
  "sleeps_of evs = concat (map (\<lambda>e. case e of Nanosleep ts r \<Rightarrow> [r] | _ \<Rightarrow> []) evs)"

definition checks_of :: "event list \<Rightarrow> event list" where
  "checks_of evs = filter (\<lambda>e. case e of Waitpid_nohang r \<Rightarrow> True | _ \<Rightarrow> False) evs"

definition waits_of :: "event list \<Rightarrow> event list" where
  "waits_of evs =
     filter (\<lambda>e. case e of Waitpid_nohang r \<Rightarrow> True | Waitpid_blocking r \<Rightarrow> True | _ \<Rightarrow> False) evs"

text \<open>Every row of a run is a \<open>csv_row\<close> for the node count of the run at some clock reading.\<close>

definition row_of_run :: "logger_os \<Rightarrow> c_int \<Rightarrow> string \<Rightarrow> bool" where
  "row_of_run os n row \<longleftrightarrow> (\<exists>k nm nv sv. row = csv_row (l_clock os k) nm nv sv n)"

text \<open>The output file when the sampling starts: what was there, or else the header.\<close>

definition existing_or_header :: "logger_os \<Rightarrow> c_int \<Rightarrow> string" where
  "existing_or_header os n = (case l_csv os of None \<Rightarrow> csv_header n | Some old \<Rightarrow> old)"

text \<open>At every moment of a run there are at least as many rows as checks of the child.\<close>

definition rows_before_checks :: "event list \<Rightarrow> bool" where
  "rows_before_checks evs \<longleftrightarrow>
     (\<forall>n. length (checks_of (take n evs)) \<le> length (rows_of (take n evs)))"

subsection \<open>A machine for examples\<close>

text \<open>
  One node with 16 GiB of which 4 GiB are free, a little traffic in the counters, a
  clock that advances by a tenth of a second in each iteration starting at
  1700000000.000000042, no output file yet, fresh memory that holds zeros, and a child
  with process id 4711 that is found terminated by the check of the third iteration.
\<close>

definition node0_meminfo :: string where
  "node0_meminfo =
     ''Node 0 MemTotal:       16777216 kB\<newline>Node 0 MemFree:         4194304 kB\<newline>Node 0 MemUsed:        12582912 kB\<newline>''"

definition node0_vmstat :: string where
  "node0_vmstat =
     ''nr_free_pages 1048576\<newline>nr_zone_inactive_anon 7\<newline>numa_hit 500\<newline>numa_miss 0\<newline>numa_foreign 0\<newline>numa_interleave 12\<newline>numa_local 500\<newline>numa_other 0\<newline>''"

definition proc_vmstat :: string where
  "proc_vmstat =
     ''nr_free_pages 1048576\<newline>numa_pte_updates 3\<newline>numa_huge_pte_updates 0\<newline>numa_pages_migrated 1\<newline>pgmigrate_success 1\<newline>pgmigrate_fail 0\<newline>thp_migration_success 0\<newline>thp_migration_fail 0\<newline>thp_migration_split 0\<newline>''"

definition example_files :: "string \<Rightarrow> string option" where
  "example_files path =
     (if path = ''/sys/devices/system/node/node0/meminfo'' then Some node0_meminfo
      else if path = ''/sys/devices/system/node/node0/vmstat'' then Some node0_vmstat
      else if path = ''/proc/vmstat'' then Some proc_vmstat
      else None)"

definition zero_nv :: node_vmstat where
  "zero_nv =
     \<lparr>nr_free_pages = 0, numa_hit = 0, numa_miss = 0, numa_foreign = 0, numa_interleave = 0,
      numa_local = 0, numa_other = 0\<rparr>"

definition zero_sv :: sys_vmstat where
  "zero_sv =
     \<lparr>numa_pte_updates = 0, numa_huge_pte_updates = 0, numa_pages_migrated = 0,
      pgmigrate_success = 0, pgmigrate_fail = 0, thp_migration_success = 0,
      thp_migration_fail = 0, thp_migration_split = 0\<rparr>"

definition example_machine :: logger_os where
  "example_machine =
     \<lparr>l_atoi = atoi_c, l_atof = atof_plain, l_malloc = (\<lambda>_. True),
      l_heap_nm = (\<lambda>_. \<lparr>mem_total = 0, mem_used = 0\<rparr>), l_heap_nv = (\<lambda>_. zero_nv),
      l_stack_sv = zero_sv, l_csv = None, l_csv_create = True, l_csv_append = True,
      l_files = (\<lambda>_. example_files),
      l_clock = (\<lambda>k. \<lparr>tv_sec = 1700000000 + of_nat (k div 10),
                        tv_nsec = of_nat (k mod 10) * 100000000 + 42\<rparr>),
      l_fork = 4711, l_child_exit = Some 2, l_execvp = (\<lambda>_. True)\<rparr>"

text \<open>Command lines for the examples.\<close>

definition argv_tenth :: "string list" where
  "argv_tenth = [''numa_stat_logger'', ''2'', ''0.1'', ''-d'', ''1'']"

definition argv_tiny :: "string list" where
  "argv_tiny =
     [''numa_stat_logger'', ''1'', ''0.00000000023283064365386962890625'', ''-d'', ''1'']"

definition argv_eleven_tenths :: "string list" where
  "argv_eleven_tenths = [''numa_stat_logger'', ''1'', ''1.1'', ''-d'', ''33'']"

definition argv_two_seconds :: "string list" where
  "argv_two_seconds = [''numa_stat_logger'', ''1'', ''2'', ''-d'', ''4'']"

text \<open>
  A run-mode command line; the example machine with an output file left by a run on one
  node; and the example machine with a child that has terminated before the first check.
\<close>

definition argv_run :: "string list" where
  "argv_run = [''numa_stat_logger'', ''2'', ''0.1'', ''-r'', ''sleep'', ''1'']"

definition machine_with_log :: logger_os where
  "machine_with_log = example_machine\<lparr>l_csv := Some (csv_header 1)\<rparr>"

definition machine_child_gone :: logger_os where
  "machine_child_gone = example_machine\<lparr>l_child_exit := Some 0\<rparr>"

section \<open>Properties of the policy invocation tool\<close>

lemma unat_word_of_int_small:
  "0 \<le> k \<Longrightarrow> k < 2 ^ 31 \<Longrightarrow> unat (word_of_int k :: c_ulong) = nat k"
  by (simp add: unsigned_of_int take_bit_int_eq_self)

lemma unat_div_64: "unat ((w :: c_ulong) div 64) = unat w div 64"
  by (simp add: unat_div_distrib)

lemma mask_words_pos:
  assumes "0 < sint n"
  shows "mask_words n = (nat (sint n) + 63) div 64"
proof -
  have lt: "sint n < 2 ^ 31"
    using sint_lt [of n] by simp
  have "unat (word_of_int (sint n) :: c_ulong) = nat (sint n)"
    using assms lt by (intro unat_word_of_int_small) simp_all
  then have "unat (signed n :: c_ulong) = nat (sint n)"
    by simp
  then have "unat (signed n + 63 :: c_ulong) = nat (sint n) + 63"
    using lt by (simp add: unat_word_ariths)
  moreover have "(signed n + 8 * 8 - 1 :: c_ulong) = signed n + 63"
    by simp
  moreover have "(8 * 8 :: c_ulong) = 64"
    by simp
  ultimately show ?thesis
    unfolding mask_words_def by (simp only: unat_div_64)
qed

lemma length_set_node_bits [simp]: "length (set_node_bits i n m) = length m"
  by (induction i n m rule: set_node_bits.induct) (simp add: set_node_bits.simps [of i n m for i n m])

lemma set_node_bits_bit:
  "k < 64 * length m \<Longrightarrow>
   bit (set_node_bits i n m ! (k div 64)) (k mod 64) \<longleftrightarrow>
   bit (m ! (k div 64)) (k mod 64) \<or> (i \<le> k \<and> int k < n)"
proof (induction i n m rule: set_node_bits.induct)
  case (1 i n m)
  show ?case
  proof (cases "int i < n")
    case False
    then show ?thesis
      by (subst set_node_bits.simps) auto
  next
    case True
    let ?m' = "m[i div 64 := m ! (i div 64) OR push_bit (i mod 64) 1]"
    have len: "k < 64 * length ?m'"
      using "1.prems" by simp
    have kd: "k div 64 < length m"
      using "1.prems" by auto
    have upd: "bit (?m' ! (k div 64)) (k mod 64) \<longleftrightarrow>
               bit (m ! (k div 64)) (k mod 64) \<or> k = i"
    proof (cases "k div 64 = i div 64")
      case same: True
      have "k = i \<longleftrightarrow> k mod 64 = i mod 64"
        using same by (metis div_mult_mod_eq)
      then show ?thesis
        using same kd by (auto simp: bit_simps)
    next
      case False
      then show ?thesis by auto
    qed
    have "bit (set_node_bits i n m ! (k div 64)) (k mod 64) \<longleftrightarrow>
          bit (set_node_bits (Suc i) n ?m' ! (k div 64)) (k mod 64)"
      using True by (subst set_node_bits.simps) simp
    also have "\<dots> \<longleftrightarrow> bit (?m' ! (k div 64)) (k mod 64) \<or> (Suc i \<le> k \<and> int k < n)"
      using "1.IH" [OF True len] .
    finally show ?thesis
      using upd True by auto
  qed
qed


lemma ceiling_div_64: "int ((n + 63) div 64) = \<lceil>real n / 64\<rceil>"
  by linarith

lemmas c_eval = isspace_def isdigit_def digit_val_def digits_val_def minus_sign_def
  skip_sign_def atoi_c_def

text \<open>
  C5: for every nodecount \<open>N \<ge> 1\<close> the mask handed to the system call occupies
  \<open>\<lceil>N / 64\<rceil>\<close> words, bit \<open>k\<close> of it (bit \<open>k mod 64\<close> of word \<open>k div 64\<close>) is set for every
  \<open>k < N\<close>, and no other bit of the buffer is set.
\<close>

theorem node_mask_exact:
  assumes "4 \<le> length argv"
    and "N = p_atoi os (argv ! 3)"
    and "p_calloc os (mask_words N) = None"
    and "0 < sint N"
  shows "pr_request (change_policy_main os argv) =
           Some (p_atoi os (argv ! 1), p_atoi os (argv ! 2), node_mask N, N)
         \<and> int (length (node_mask N)) = \<lceil>real_of_int (sint N) / 64\<rceil>
         \<and> (\<forall>k < 64 * length (node_mask N).
               bit (node_mask N ! (k div 64)) (k mod 64) \<longleftrightarrow> int k < sint N)"
proof (intro conjI allI impI)
  show "pr_request (change_policy_main os argv) =
          Some (p_atoi os (argv ! 1), p_atoi os (argv ! 2), node_mask N, N)"
    using assms(1-3)
    by (simp add: change_policy_main_def Let_def split: prod.splits)
  have len: "length (node_mask N) = (nat (sint N) + 63) div 64"
    by (simp add: node_mask_def mask_words_pos [OF assms(4)])
  have "int ((nat (sint N) + 63) div 64) = \<lceil>real (nat (sint N)) / 64\<rceil>"
    by (rule ceiling_div_64)
  then show "int (length (node_mask N)) = \<lceil>real_of_int (sint N) / 64\<rceil>"
    using assms(4) len by simp
  fix k
  assume "k < 64 * length (node_mask N)"
  then have "k < 64 * length (replicate (mask_words N) (0 :: c_ulong))"
    by (simp add: node_mask_def)
  from set_node_bits_bit [OF this, of 0 "sint N"]
  show "bit (node_mask N ! (k div 64)) (k mod 64) \<longleftrightarrow> int k < sint N"
    using \<open>k < 64 * length (node_mask N)\<close> by (simp add: node_mask_def)
qed

theorem node_mask_exact_witness:
  "4 \<le> length [''change_policy'', ''4711'', ''2'', ''70'']
   \<and> (70 :: c_int) = p_atoi stock_kernel ([''change_policy'', ''4711'', ''2'', ''70''] ! 3)
   \<and> p_calloc stock_kernel (mask_words 70) = None
   \<and> 0 < sint (70 :: c_int)
   \<and> pr_request (change_policy_main stock_kernel [''change_policy'', ''4711'', ''2'', ''70''])
       = Some (4711, 2, node_mask 70, 70)
   \<and> length (node_mask 70) = 2
   \<and> bit (node_mask 70 ! (69 div 64)) (69 mod 64)
   \<and> \<not> bit (node_mask 70 ! (70 div 64)) (70 mod 64)"
proof -
  let ?argv = "[''change_policy'', ''4711'', ''2'', ''70'']"
  have a: "4 \<le> length ?argv"
    by simp
  have b: "(70 :: c_int) = p_atoi stock_kernel (?argv ! 3)"
    by (simp add: stock_kernel_def c_eval)
  have c: "p_calloc stock_kernel (mask_words 70) = None"
    by (simp add: stock_kernel_def)
  have d: "0 < sint (70 :: c_int)"
    by simp
  have ids: "p_atoi stock_kernel (?argv ! 1) = 4711" "p_atoi stock_kernel (?argv ! 2) = 2"
    by (simp_all add: stock_kernel_def c_eval)
  have len: "length (node_mask 70) = 2"
    by (simp add: node_mask_def mask_words_def)
  from node_mask_exact [OF a b c d] have
    req: "pr_request (change_policy_main stock_kernel ?argv) = Some (4711, 2, node_mask 70, 70)"
    and bits: "\<forall>k < 64 * length (node_mask 70).
                 bit (node_mask 70 ! (k div 64)) (k mod 64) \<longleftrightarrow> int k < sint (70 :: c_int)"
    using ids by simp_all
  from bits [rule_format, of 69] bits [rule_format, of 70] len
  have "bit (node_mask 70 ! (69 div 64)) (69 mod 64)"
    and "\<not> bit (node_mask 70 ! (70 div 64)) (70 mod 64)"
    by simp_all
  with a b c d req len show ?thesis
    by (intro conjI)
qed

text \<open>
  C4: with at least three arguments and a successful allocation, a failing request (the
  system call returns \<open>-1\<close>, in any case not 0) makes the tool print
  \<^verbatim>\<open>syscall: \<close> and the system's description of the error to standard error, nothing to
  standard output, and exit with status 0.
\<close>

theorem request_failure_exits_0:
  assumes "4 \<le> length argv"
    and "p_calloc os (mask_words (p_atoi os (argv ! 3))) = None"
    and "p_syscall os (p_atoi os (argv ! 1)) (p_atoi os (argv ! 2))
           (node_mask (p_atoi os (argv ! 3))) (p_atoi os (argv ! 3)) = (ret, err)"
    and "ret \<noteq> 0"
  shows "pr_status (change_policy_main os argv) = 0
         \<and> pr_stderr (change_policy_main os argv) = ''syscall: '' @ err @ ''\<newline>''
         \<and> pr_stdout (change_policy_main os argv) = []"
  using assms by (simp add: change_policy_main_def Let_def)

theorem request_failure_exits_0_witness:
  "4 \<le> length [''change_policy'', ''4711'', ''2'', ''2'']
   \<and> p_calloc stock_kernel (mask_words (p_atoi stock_kernel ([''change_policy'', ''4711'', ''2'', ''2''] ! 3))) = None
   \<and> (- 1 :: c_long) \<noteq> 0
   \<and> pr_status (change_policy_main stock_kernel [''change_policy'', ''4711'', ''2'', ''2'']) = 0
   \<and> pr_stderr (change_policy_main stock_kernel [''change_policy'', ''4711'', ''2'', ''2''])
       = ''syscall: Function not implemented\<newline>''"
proof -
  let ?argv = "[''change_policy'', ''4711'', ''2'', ''2'']"
  have a: "4 \<le> length ?argv"
    by simp
  have b: "p_calloc stock_kernel (mask_words (p_atoi stock_kernel (?argv ! 3))) = None"
    by (simp add: stock_kernel_def)
  have c: "p_syscall stock_kernel (p_atoi stock_kernel (?argv ! 1)) (p_atoi stock_kernel (?argv ! 2))
             (node_mask (p_atoi stock_kernel (?argv ! 3))) (p_atoi stock_kernel (?argv ! 3))
           = (- 1, ''Function not implemented'')"
    by (simp add: stock_kernel_def)
  have d: "(- 1 :: c_long) \<noteq> 0"
    by simp
  from request_failure_exits_0 [OF a b c d] a b d show ?thesis
    by simp
qed

section \<open>Properties of the statistics logger\<close>

subsection \<open>Rows of a duration-mode run\<close>

lemma rows_of_simps [simp]:
  "rows_of [] = []"
  "rows_of (a @ b) = rows_of a @ rows_of b"
  "rows_of (Wrote_row r # evs) = r # rows_of evs"
  "rows_of (Nanosleep ts x # evs) = rows_of evs"
  "rows_of (Waitpid_nohang ret # evs) = rows_of evs"
  "rows_of (Waitpid_blocking ret # evs) = rows_of evs"
  by (simp_all add: rows_of_def)

lemma sleeps_of_simps [simp]:
  "sleeps_of [] = []"
  "sleeps_of (a @ b) = sleeps_of a @ sleeps_of b"
  "sleeps_of (Wrote_row r # evs) = sleeps_of evs"
  "sleeps_of (Nanosleep ts x # evs) = x # sleeps_of evs"
  "sleeps_of (Waitpid_nohang ret # evs) = sleeps_of evs"
  "sleeps_of (Waitpid_blocking ret # evs) = sleeps_of evs"
  by (simp_all add: sleeps_of_def)

lemma loop_body_duration:
  assumes "\<not> c_use_run c" and "sleep_request (c_interval_sec c) = Some ts"
  shows "snd (loop_body os c iter st) = Next"
    and "\<exists>row. s_events (fst (loop_body os c iter st))
               = s_events st @ [Wrote_row row, Nanosleep ts (nanosleep ts)]
             \<and> s_csv (fst (loop_body os c iter st)) = s_csv st @ row"
    and "s_child (fst (loop_body os c iter st)) = s_child st"
  using assms by (simp_all add: loop_body_def Let_def split: prod.splits)

lemma duration_loop:
  assumes "c_use_duration c" and "\<not> c_use_run c"
    and "sleep_request (c_interval_sec c) = Some ts"
  shows "int iter \<le> sint (c_iterations c) \<Longrightarrow> nat (sint (c_iterations c)) - iter < fuel \<Longrightarrow>
         snd (sampling_loop os c fuel iter st) = Finished
         \<and> length (rows_of (s_events (fst (sampling_loop os c fuel iter st))))
           = length (rows_of (s_events st)) + (nat (sint (c_iterations c)) - iter)
         \<and> sleeps_of (s_events (fst (sampling_loop os c fuel iter st)))
           = sleeps_of (s_events st) @ replicate (nat (sint (c_iterations c)) - iter) (nanosleep ts)"
proof (induction fuel arbitrary: iter st)
  case 0
  then show ?case by simp
next
  case (Suc fuel)
  show ?case
  proof (cases "int iter < sint (c_iterations c)")
    case False
    with Suc.prems assms show ?thesis by simp
  next
    case True
    obtain st' where body: "loop_body os c iter st = (st', Next)"
      using loop_body_duration(1) [OF assms(2,3), of os iter st]
      by (cases "loop_body os c iter st") simp
    from loop_body_duration(2) [OF assms(2,3), of os iter st] body
    have rows: "length (rows_of (s_events st')) = Suc (length (rows_of (s_events st)))"
      and sleeps: "sleeps_of (s_events st') = sleeps_of (s_events st) @ [nanosleep ts]"
      by auto
    have more: "nat (sint (c_iterations c)) - iter = Suc (nat (sint (c_iterations c)) - Suc iter)"
      using True by linarith
    have "snd (sampling_loop os c fuel (Suc iter) st') = Finished
          \<and> length (rows_of (s_events (fst (sampling_loop os c fuel (Suc iter) st'))))
            = length (rows_of (s_events st')) + (nat (sint (c_iterations c)) - Suc iter)
          \<and> sleeps_of (s_events (fst (sampling_loop os c fuel (Suc iter) st')))
            = sleeps_of (s_events st') @ replicate (nat (sint (c_iterations c)) - Suc iter) (nanosleep ts)"
      using True Suc.prems by (intro Suc.IH) linarith+
    with True body rows sleeps assms show ?thesis
      by (simp add: more)
  qed
qed


lemma sint_word_of_int_32:
  "- (2 ^ 31) \<le> k \<Longrightarrow> k < 2 ^ 31 \<Longrightarrow> sint (word_of_int k :: c_int) = k"
  by (simp add: sint_sbintrunc' signed_take_bit_int_eq_self)

lemma sint_word_of_int_64:
  "- (2 ^ 63) \<le> k \<Longrightarrow> k < 2 ^ 63 \<Longrightarrow> sint (word_of_int k :: c_long) = k"
  by (simp add: sint_sbintrunc' signed_take_bit_int_eq_self)

lemma pow2_pos: "0 < pow2 e"
  by (simp add: pow2_def)

lemma round_nearest_even_nonneg: "0 \<le> x \<Longrightarrow> 0 \<le> round_nearest_even x"
  by (auto simp: round_nearest_even_def Let_def)

lemma round_double_nonneg:
  assumes "0 \<le> x" and "round_double x = Finite y"
  shows "0 \<le> y"
proof (cases "x = 0")
  case True
  with assms show ?thesis by (simp add: round_double_def)
next
  case False
  let ?q = "pow2 (max (ilog2 \<bar>x\<bar>) (- 1022) - 52)"
  have "y = of_int (round_nearest_even (x / ?q)) * ?q"
    using assms(2) False by (simp add: round_double_def Let_def split: if_splits)
  moreover have "0 \<le> round_nearest_even (x / ?q)"
    using assms(1) pow2_pos [of "max (ilog2 \<bar>x\<bar>) (- 1022) - 52"]
    by (intro round_nearest_even_nonneg) simp
  ultimately show ?thesis
    using pow2_pos [of "max (ilog2 \<bar>x\<bar>) (- 1022) - 52"] by simp
qed

lemma trunc_to_int_nonneg: "0 \<le> q \<Longrightarrow> trunc_to_int q = \<lfloor>q\<rfloor>"
  by (simp add: trunc_to_int_def)

lemma duration_run:
  assumes args: "5 \<le> length argv" "argv ! 3 = ''-d''"
    and nc: "0 < sint (l_atoi os (argv ! 1))"
    and iv: "l_atof os (argv ! 2) = Finite r" "0 < r"
    and du: "0 < sint (l_atoi os (argv ! 4))"
    and q: "ddiv (double_of_int (l_atoi os (argv ! 4))) (Finite r) = Finite q" "q < 2 ^ 31"
    and p: "dmul (Finite r) (Finite 1000000000) = Finite p" "p < 2 ^ 63"
    and mem: "l_malloc os (8 * nat (sint (l_atoi os (argv ! 1))))"
             "l_malloc os (28 * nat (sint (l_atoi os (argv ! 1))))"
    and csvf: "l_csv os = None \<longrightarrow> l_csv_create os" "l_csv_append os"
    and fuel: "nat \<lfloor>q\<rfloor> < fuel"
  shows "lr_end (logger_main os fuel argv) = Exit 0
         \<and> length (rows_of (lr_events (logger_main os fuel argv))) = nat \<lfloor>q\<rfloor>
         \<and> sleeps_of (lr_events (logger_main os fuel argv))
           = replicate (nat \<lfloor>q\<rfloor>) (nanosleep \<lparr>tv_sec = 0, tv_nsec = word_of_int \<lfloor>p\<rfloor>\<rparr>)"
proof -
  let ?d = "l_atoi os (argv ! 4)" and ?n = "l_atoi os (argv ! 1)"
  have "round_double (of_int (sint ?d) / r) = Finite q"
    using q(1) iv(2) by (simp add: double_of_int_def)
  moreover have "0 \<le> rat_of_int (sint ?d) / r"
    using du iv(2) by (intro divide_nonneg_pos) (simp_all del: of_int_sint)
  ultimately have q0: "0 \<le> q"
    by (rule round_double_nonneg [rotated])
  have "round_double (r * 1000000000) = Finite p"
    using p(1) by simp
  moreover have "0 \<le> r * 1000000000"
    using iv(2) by simp
  ultimately have p0: "0 \<le> p"
    by (rule round_double_nonneg [rotated])
  have fq: "\<lfloor>q\<rfloor> < 2 ^ 31" "0 \<le> \<lfloor>q\<rfloor>"
    using q(2) q0 by (simp_all add: floor_less_iff)
  have fp: "\<lfloor>p\<rfloor> < 2 ^ 63" "0 \<le> \<lfloor>p\<rfloor>"
    using p(2) p0 by (simp_all add: floor_less_iff)
  define its :: c_int where "its = word_of_int \<lfloor>q\<rfloor>"
  have its: "int_of_double (Finite q) = Some its" "sint its = \<lfloor>q\<rfloor>"
    using fq q0 by (simp_all add: its_def trunc_to_int_nonneg sint_word_of_int_32)
  define ts where "ts = \<lparr>tv_sec = 0, tv_nsec = word_of_int \<lfloor>p\<rfloor>\<rparr>"
  have sl: "sleep_request (Finite r) = Some ts"
    using fp p0 p(1) by (simp add: sleep_request_def ts_def trunc_to_int_nonneg)
  obtain content where hdr: "write_csv_header (l_csv os) (l_csv_create os) ?n = Inr content"
    using csvf(1) by (cases "l_csv os") (auto simp: write_csv_header_def)
  define c where "c = \<lparr>c_numa_count = ?n, c_interval_sec = Finite r, c_use_duration = True,
                           c_iterations = its, c_use_run = False\<rparr>"
  define st0 where "st0 = initial_state os c content"
  have loop: "snd (sampling_loop os c fuel 0 st0) = Finished
         \<and> length (rows_of (s_events (fst (sampling_loop os c fuel 0 st0))))
           = length (rows_of (s_events st0)) + (nat (sint (c_iterations c)) - 0)
         \<and> sleeps_of (s_events (fst (sampling_loop os c fuel 0 st0)))
           = sleeps_of (s_events st0) @ replicate (nat (sint (c_iterations c)) - 0) (nanosleep ts)"
    using sl fuel its(2) fq by (intro duration_loop [where ts = ts]) (simp_all add: c_def)
  obtain st how where res: "sampling_loop os c fuel 0 st0 = (st, how)"
    by (cases "sampling_loop os c fuel 0 st0")
  with loop have how: "how = Finished" and n: "length (rows_of (s_events st)) = nat \<lfloor>q\<rfloor>"
    and sl': "sleeps_of (s_events st) = replicate (nat \<lfloor>q\<rfloor>) (nanosleep ts)"
    by (simp_all add: c_def st0_def its(2) initial_state_def)
  have "run_sampling os fuel c content =
          \<lparr>lr_end = Exit 0, lr_stderr = [], lr_csv = Some (s_csv st), lr_events = s_events st\<rparr>"
    using res [unfolded st0_def] how by (simp add: run_sampling_def after_loop_def c_def)
  moreover have "logger_main os fuel argv = run_sampling os fuel c content"
    using args nc iv du q(1) its(1) mem hdr csvf(2)
    by (simp add: logger_main_def logger_sample_def Let_def c_def)
  ultimately have "logger_main os fuel argv =
          \<lparr>lr_end = Exit 0, lr_stderr = [], lr_csv = Some (s_csv st), lr_events = s_events st\<rparr>"
    by simp
  with n sl' show ?thesis
    by (simp add: ts_def)
qed

subsection \<open>Evaluating double-precision arithmetic\<close>

lemma floor_rat_numeral: "\<lfloor>numeral a / numeral b :: rat\<rfloor> = numeral a div numeral b"
  by (metis floor_divide_of_int_eq of_int_numeral)

lemma ceiling_rat_numeral:
  "\<lceil>numeral a / numeral b :: rat\<rceil> = - ((- numeral a) div numeral b)"
  by (metis ceiling_def floor_divide_of_int_eq minus_divide_left of_int_minus of_int_numeral)

lemmas d_eval = round_double_def ilog2_def pow2_def round_nearest_even_def Let_def
  bitlen_nat.simps floor_rat_numeral ceiling_rat_numeral atof_plain_def double_of_int_def

lemma atof_tenth: "atof_plain ''0.1'' = Finite (3602879701896397 / 36028797018963968)"
  by (simp add: c_eval d_eval)

lemma one_by_tenth:
  "ddiv (double_of_int (atoi_c ''1'')) (Finite (3602879701896397 / 36028797018963968)) = Finite 10"
  by (simp add: c_eval d_eval)

lemma tenth_nanoseconds:
  "dmul (Finite (3602879701896397 / 36028797018963968)) (Finite 1000000000) = Finite 100000000"
  by (simp add: c_eval d_eval)

lemma atof_eleven_tenths: "atof_plain ''1.1'' = Finite (2476979795053773 / 2251799813685248)"
  by (simp add: c_eval d_eval)

lemma thirty_three_by_eleven_tenths:
  "ddiv (double_of_int (atoi_c ''33'')) (Finite (2476979795053773 / 2251799813685248))
   = Finite (8444249301319679 / 281474976710656)"
  by (simp add: c_eval d_eval)

lemma eleven_tenths_nanoseconds:
  "dmul (Finite (2476979795053773 / 2251799813685248)) (Finite 1000000000) = Finite 1100000000"
  by (simp add: c_eval d_eval)

lemma atof_tiny: "atof_plain ''0.00000000023283064365386962890625'' = Finite (1 / 2 ^ 32)"
  by (simp add: c_eval d_eval)

lemma tenth_facts:
  "5 \<le> length argv_tenth" "argv_tenth ! 3 = ''-d''"
  "0 < sint (l_atoi example_machine (argv_tenth ! 1))"
  "l_atof example_machine (argv_tenth ! 2) = Finite (3602879701896397 / 36028797018963968)"
  "(0 :: rat) < 3602879701896397 / 36028797018963968"
  "0 < sint (l_atoi example_machine (argv_tenth ! 4))"
  "ddiv (double_of_int (l_atoi example_machine (argv_tenth ! 4)))
     (Finite (3602879701896397 / 36028797018963968)) = Finite 10"
  "(10 :: rat) < 2 ^ 31"
  "dmul (Finite (3602879701896397 / 36028797018963968)) (Finite 1000000000) = Finite 100000000"
  "(100000000 :: rat) < 2 ^ 63"
  "l_malloc example_machine (8 * nat (sint (l_atoi example_machine (argv_tenth ! 1))))"
  "l_malloc example_machine (28 * nat (sint (l_atoi example_machine (argv_tenth ! 1))))"
  "l_csv example_machine = None \<longrightarrow> l_csv_create example_machine"
  "l_csv_append example_machine"
  "nat \<lfloor>10 :: rat\<rfloor> < 11"
proof -
  show "ddiv (double_of_int (l_atoi example_machine (argv_tenth ! 4)))
     (Finite (3602879701896397 / 36028797018963968)) = Finite 10"
    using one_by_tenth by (simp add: argv_tenth_def example_machine_def)
  show "dmul (Finite (3602879701896397 / 36028797018963968)) (Finite 1000000000) = Finite 100000000"
    by (rule tenth_nanoseconds)
  show "l_atof example_machine (argv_tenth ! 2) = Finite (3602879701896397 / 36028797018963968)"
    by (simp add: argv_tenth_def example_machine_def atof_tenth)
qed (simp_all add: argv_tenth_def example_machine_def c_eval)

subsection \<open>The number of rows\<close>

text \<open>
  C1, as the code has it: a duration-mode run with valid arguments, whose quotient
  \<^verbatim>\<open>duration_sec / interval_sec\<close>, computed in double precision, is below \<open>2\<^sup>3\<^sup>1\<close> and
  whose \<^verbatim>\<open>interval_sec * 1e9\<close> is below \<open>2\<^sup>6\<^sup>3\<close>, ends with status 0 (its allocations and the
  opening of the output file succeeding) and writes as many rows as the integral part
  of that quotient says.
\<close>

theorem duration_rows:
  assumes "5 \<le> length argv" and "argv ! 3 = ''-d''"
    and "0 < sint (l_atoi os (argv ! 1))"
    and "l_atof os (argv ! 2) = Finite r" and "0 < r"
    and "0 < sint (l_atoi os (argv ! 4))"
    and "ddiv (double_of_int (l_atoi os (argv ! 4))) (Finite r) = Finite q" and "q < 2 ^ 31"
    and "dmul (Finite r) (Finite 1000000000) = Finite p" and "p < 2 ^ 63"
    and "l_malloc os (8 * nat (sint (l_atoi os (argv ! 1))))"
    and "l_malloc os (28 * nat (sint (l_atoi os (argv ! 1))))"
    and "l_csv os = None \<longrightarrow> l_csv_create os" and "l_csv_append os"
    and "nat \<lfloor>q\<rfloor> < fuel"
  shows "lr_end (logger_main os fuel argv) = Exit 0
         \<and> length (rows_of (lr_events (logger_main os fuel argv))) = nat \<lfloor>q\<rfloor>"
  using duration_run [OF assms] by simp

text \<open>
  The instance of the specification: two nodes, an interval of 0.1 seconds, one second.
  The nearest double to 0.1 is a little above it, and the quotient rounds to 10.
\<close>

theorem duration_rows_witness:
  "5 \<le> length argv_tenth \<and> argv_tenth ! 3 = ''-d''
   \<and> 0 < sint (l_atoi example_machine (argv_tenth ! 1))
   \<and> l_atof example_machine (argv_tenth ! 2) = Finite (3602879701896397 / 36028797018963968)
   \<and> (0 :: rat) < 3602879701896397 / 36028797018963968
   \<and> 0 < sint (l_atoi example_machine (argv_tenth ! 4))
   \<and> ddiv (double_of_int (l_atoi example_machine (argv_tenth ! 4)))
         (Finite (3602879701896397 / 36028797018963968)) = Finite 10
   \<and> (10 :: rat) < 2 ^ 31
   \<and> dmul (Finite (3602879701896397 / 36028797018963968)) (Finite 1000000000)
       = Finite 100000000
   \<and> (100000000 :: rat) < 2 ^ 63
   \<and> l_malloc example_machine (8 * nat (sint (l_atoi example_machine (argv_tenth ! 1))))
   \<and> l_malloc example_machine (28 * nat (sint (l_atoi example_machine (argv_tenth ! 1))))
   \<and> l_csv example_machine = None \<and> l_csv_create example_machine
   \<and> l_csv_append example_machine
   \<and> nat \<lfloor>10 :: rat\<rfloor> < 11
   \<and> lr_end (logger_main example_machine 11 argv_tenth) = Exit 0
   \<and> length (rows_of (lr_events (logger_main example_machine 11 argv_tenth))) = 10"
proof -
  from duration_rows [OF tenth_facts]
  have "lr_end (logger_main example_machine 11 argv_tenth) = Exit 0
        \<and> length (rows_of (lr_events (logger_main example_machine 11 argv_tenth))) = 10"
    by simp
  moreover have "l_csv example_machine = None" and "l_csv_create example_machine"
    by (simp_all add: example_machine_def)
  ultimately show ?thesis
    using tenth_facts by (intro conjI) simp_all
qed

text \<open>
  Two runs on which the claim as the specification words it fails. With an interval of
  \<open>2\<^sup>-\<^sup>3\<^sup>2\<close> seconds and one second the quotient is \<open>2\<^sup>3\<^sup>2\<close>: the conversion to \<^verbatim>\<open>int\<close> has no
  defined result and the model writes no row. With an interval of 1.1 seconds and 33
  seconds the quotient of the numbers written is 30; the double nearest to 1.1 is a
  little above it, the quotient rounds to the double below 30, and 29 rows are written.
\<close>

theorem duration_rows_counterexample:
  "l_atof example_machine (argv_tiny ! 2) = Finite (1 / 2 ^ 32)
   \<and> \<lfloor>rat_of_int (sint (l_atoi example_machine (argv_tiny ! 4))) / (1 / 2 ^ 32)\<rfloor> = 4294967296
   \<and> lr_end (logger_main example_machine 4294967297 argv_tiny) = Undefined
   \<and> length (rows_of (lr_events (logger_main example_machine 4294967297 argv_tiny))) \<noteq> 4294967296
   \<and> \<lfloor>rat_of_int (sint (l_atoi example_machine (argv_eleven_tenths ! 4))) / (11 / 10)\<rfloor> = 30
   \<and> lr_end (logger_main example_machine 31 argv_eleven_tenths) = Exit 0
   \<and> length (rows_of (lr_events (logger_main example_machine 31 argv_eleven_tenths))) = 29"
proof -
  have a: "l_atof example_machine (argv_tiny ! 2) = Finite (1 / 2 ^ 32)"
    using atof_tiny by (simp add: argv_tiny_def example_machine_def)
  have b: "\<lfloor>rat_of_int (sint (l_atoi example_machine (argv_tiny ! 4))) / (1 / 2 ^ 32)\<rfloor>
           = 4294967296"
    by (simp add: argv_tiny_def example_machine_def c_eval)
  have run: "logger_main example_machine 4294967297 argv_tiny
             = \<lparr>lr_end = Undefined, lr_stderr = [], lr_csv = None, lr_events = []\<rparr>"
    by (simp add: logger_main_def logger_sample_def argv_tiny_def example_machine_def atof_tiny
        c_eval d_eval trunc_to_int_def)
  have c: "\<lfloor>rat_of_int (sint (l_atoi example_machine (argv_eleven_tenths ! 4))) / (11 / 10)\<rfloor>
           = 30"
    by (simp add: argv_eleven_tenths_def example_machine_def c_eval)
  let ?r = "2476979795053773 / 2251799813685248 :: rat"
  let ?q = "8444249301319679 / 281474976710656 :: rat"
  have fl: "\<lfloor>?q\<rfloor> = 29"
    by (simp add: floor_rat_numeral)
  have "lr_end (logger_main example_machine 31 argv_eleven_tenths) = Exit 0
        \<and> length (rows_of (lr_events (logger_main example_machine 31 argv_eleven_tenths)))
          = nat \<lfloor>?q\<rfloor>
        \<and> sleeps_of (lr_events (logger_main example_machine 31 argv_eleven_tenths))
          = replicate (nat \<lfloor>?q\<rfloor>)
              (nanosleep \<lparr>tv_sec = 0, tv_nsec = word_of_int \<lfloor>1100000000 :: rat\<rfloor>\<rparr>)"
  proof (rule duration_run [where r = ?r and p = 1100000000])
    show "ddiv (double_of_int (l_atoi example_machine (argv_eleven_tenths ! 4))) (Finite ?r)
          = Finite ?q"
      using thirty_three_by_eleven_tenths
      by (simp add: argv_eleven_tenths_def example_machine_def)
    show "l_atof example_machine (argv_eleven_tenths ! 2) = Finite ?r"
      by (simp add: argv_eleven_tenths_def example_machine_def atof_eleven_tenths)
    show "dmul (Finite ?r) (Finite 1000000000) = Finite 1100000000"
      by (rule eleven_tenths_nanoseconds)
    show "nat \<lfloor>?q\<rfloor> < 31"
      by (simp add: fl)
  qed (simp_all add: argv_eleven_tenths_def example_machine_def c_eval)
  then have "lr_end (logger_main example_machine 31 argv_eleven_tenths) = Exit 0
        \<and> length (rows_of (lr_events (logger_main example_machine 31 argv_eleven_tenths)))
          = nat \<lfloor>?q\<rfloor>"
    by simp
  with a b c run fl show ?thesis
    by simp
qed

subsection \<open>The pause between two samples\<close>

lemma atof_two: "atof_plain ''2'' = Finite 2"
  by (simp add: c_eval d_eval)

lemma four_by_two: "ddiv (double_of_int (atoi_c ''4'')) (Finite 2) = Finite 2"
  by (simp add: c_eval d_eval)

lemma two_seconds_nanoseconds: "dmul (Finite 2) (Finite 1000000000) = Finite 2000000000"
  by (simp add: c_eval d_eval)

text \<open>
  C3 fails from one second on. The whole interval goes into \<^verbatim>\<open>tv_nsec\<close> and \<^verbatim>\<open>tv_sec\<close> is
  0, so with an interval of 2 seconds the request is \<open>{0, 2000000000}\<close>, which
  \<^verbatim>\<open>nanosleep\<close> rejects: the run \<^verbatim>\<open>numa_stat_logger 1 2 -d 4\<close> writes its two rows and pauses
  after neither.
\<close>

theorem two_seconds_no_pause:
  "l_atof example_machine (argv_two_seconds ! 2) = Finite 2
   \<and> sleep_request (Finite 2) = Some \<lparr>tv_sec = 0, tv_nsec = 2000000000\<rparr>
   \<and> nanosleep \<lparr>tv_sec = 0, tv_nsec = 2000000000\<rparr> = None
   \<and> lr_end (logger_main example_machine 3 argv_two_seconds) = Exit 0
   \<and> length (rows_of (lr_events (logger_main example_machine 3 argv_two_seconds))) = 2
   \<and> sleeps_of (lr_events (logger_main example_machine 3 argv_two_seconds)) = [None, None]"
proof -
  have a: "l_atof example_machine (argv_two_seconds ! 2) = Finite 2"
    by (simp add: argv_two_seconds_def example_machine_def atof_two)
  have b: "sleep_request (Finite 2) = Some \<lparr>tv_sec = 0, tv_nsec = 2000000000\<rparr>"
    using two_seconds_nanoseconds by (simp add: sleep_request_def trunc_to_int_def)
  have c: "nanosleep \<lparr>tv_sec = 0, tv_nsec = 2000000000\<rparr> = None"
    by (simp add: nanosleep_def)
  have "lr_end (logger_main example_machine 3 argv_two_seconds) = Exit 0
        \<and> length (rows_of (lr_events (logger_main example_machine 3 argv_two_seconds)))
          = nat \<lfloor>2 :: rat\<rfloor>
        \<and> sleeps_of (lr_events (logger_main example_machine 3 argv_two_seconds))
          = replicate (nat \<lfloor>2 :: rat\<rfloor>)
              (nanosleep \<lparr>tv_sec = 0, tv_nsec = word_of_int \<lfloor>2000000000 :: rat\<rfloor>\<rparr>)"
  proof (rule duration_run [where r = 2])
    show "ddiv (double_of_int (l_atoi example_machine (argv_two_seconds ! 4))) (Finite 2) = Finite 2"
      using four_by_two by (simp add: argv_two_seconds_def example_machine_def)
    show "dmul (Finite 2) (Finite 1000000000) = Finite 2000000000"
      by (rule two_seconds_nanoseconds)
    show "l_atof example_machine (argv_two_seconds ! 2) = Finite 2"
      by (rule a)
  qed (simp_all add: argv_two_seconds_def example_machine_def c_eval)
  with a b c show ?thesis
    by (simp add: numeral_2_eq_2)
qed

subsection \<open>The shape of a row\<close>

lemma commas_simps [simp]:
  "commas [] = 0"
  "commas (a @ b) = commas a + commas b"
  "commas (c # cs) = (if c = CHR '','' then Suc (commas cs) else commas cs)"
  by (simp_all add: commas_def)

lemma split_commas_not_Nil [simp]: "split_commas s \<noteq> []"
  by (induction s) (auto split: list.splits)

lemma length_split_commas: "length (split_commas s) = Suc (commas s)"
  by (induction s) (auto split: list.splits)

lemma isdigit_digit_char: "d < 10 \<Longrightarrow> isdigit (digit_char d)"
  by (simp add: isdigit_def digit_char_def)

lemma digit_val_digit_char: "d < 10 \<Longrightarrow> digit_val (digit_char d) = d"
  by (simp add: digit_val_def digit_char_def)

lemma not_isdigit_comma [simp]: "\<not> isdigit CHR '',''"
  by (simp add: isdigit_def)

lemma isdigit_dec_nat: "c \<in> set (dec_nat n) \<Longrightarrow> isdigit c"
  by (induction n rule: dec_nat.induct) (subst (asm) dec_nat.simps, auto simp: isdigit_digit_char split: if_splits)

lemma commas_digits: "(\<forall>c \<in> set s. isdigit c) \<Longrightarrow> commas s = 0"
  by (induction s) auto

lemma commas_dec_nat [simp]: "commas (dec_nat n) = 0"
  by (simp add: commas_digits isdigit_dec_nat)

lemma commas_dec_int [simp]: "commas (dec_int i) = 0"
  by (simp add: dec_int_def)

lemma commas_zero_pad [simp]: "commas (zero_pad w ds) = commas ds"
  by (simp add: zero_pad_def commas_def)

lemma commas_fmt [simp]:
  "commas (fmt_u u) = 0" "commas (fmt_d i) = 0" "commas (fmt_ld l) = 0" "commas (fmt_09ld l) = 0"
  by (simp_all add: fmt_u_def fmt_d_def fmt_ld_def fmt_09ld_def)

lemma commas_concat_map: "(\<And>x. x \<in> set xs \<Longrightarrow> commas (f x) = k) \<Longrightarrow> commas (concat (map f xs)) = length xs * k"
  by (induction xs) auto

lemma commas_for_nodes: "(\<And>i. commas (f i) = k) \<Longrightarrow> commas (for_nodes n f) = nat (sint n) * k"
  by (simp add: for_nodes_def commas_concat_map)

lemma commas_csv_row: "commas (csv_row ts nm nv sv n) = 2 * nat (sint n) + 7 * nat (sint n) + 8"
  by (simp add: csv_row_def commas_for_nodes [where k = 2] commas_for_nodes [where k = 7])

lemma commas_csv_header: "commas (csv_header n) = 2 * nat (sint n) + 7 * nat (sint n) + 8"
  by (simp add: csv_header_def sys_cols_def commas_for_nodes [where k = 2] commas_for_nodes [where k = 7])


lemma digits_val_snoc: "digits_val (ds @ [c]) = 10 * digits_val ds + digit_val c"
  by (simp add: digits_val_def)

lemma digits_val_dec_nat: "digits_val (dec_nat n) = n"
proof (induction n rule: dec_nat.induct)
  case (1 n)
  show ?case
  proof (cases "n < 10")
    case True
    then show ?thesis
      by (subst dec_nat.simps) (simp add: digits_val_def digit_val_digit_char)
  next
    case False
    with 1 show ?thesis
      by (subst dec_nat.simps) (simp add: digits_val_snoc digit_val_digit_char)
  qed
qed

lemma length_dec_nat: "0 < k \<Longrightarrow> n < 10 ^ k \<Longrightarrow> length (dec_nat n) \<le> k"
proof (induction k arbitrary: n)
  case 0
  then show ?case by simp
next
  case (Suc k)
  show ?case
  proof (cases "n < 10")
    case True
    then show ?thesis
      by (subst dec_nat.simps) simp
  next
    case False
    then have k: "0 < k"
      using Suc.prems(2) by (cases k) auto
    have "n div 10 < 10 ^ k"
      using Suc.prems(2) by (simp add: less_mult_imp_div_less mult.commute)
    from Suc.IH [OF k this] False show ?thesis
      by (subst dec_nat.simps) simp
  qed
qed

lemma digits_val_zeros: "digits_val (replicate k CHR ''0'' @ ds) = digits_val ds"
  by (induction k) (simp_all add: digits_val_def digit_val_def)

lemma fmt_09ld_nine_digits:
  assumes "0 \<le> sint v" and "sint v \<le> 999999999"
  shows "length (fmt_09ld v) = 9" and "\<forall>c \<in> set (fmt_09ld v). isdigit c"
    and "int (digits_val (fmt_09ld v)) = sint v"
proof -
  have len: "length (dec_nat (nat (sint v))) \<le> 9"
    using assms by (intro length_dec_nat) simp_all
  have z: "isdigit CHR ''0''"
    by (simp add: isdigit_def)
  show "length (fmt_09ld v) = 9"
    using assms(1) len by (simp add: fmt_09ld_def zero_pad_def)
  show "\<forall>c \<in> set (fmt_09ld v). isdigit c"
    using assms(1) z by (auto simp: fmt_09ld_def zero_pad_def isdigit_dec_nat)
  show "int (digits_val (fmt_09ld v)) = sint v"
    using assms(1) by (simp add: fmt_09ld_def zero_pad_def digits_val_zeros digits_val_dec_nat)
qed

lemma csv_row_shape:
  "\<exists>rest. csv_row ts nm nv sv n = fmt_ld (tv_sec ts) @ ''.'' @ fmt_09ld (tv_nsec ts) @ '','' @ rest"
proof (cases "nat (sint n)")
  case 0
  then show ?thesis
    by (simp add: csv_row_def for_nodes_def)
next
  case (Suc m)
  then have "[0..<nat (sint n)] = 0 # [1..<Suc m]"
    by (simp add: upt_conv_Cons)
  then show ?thesis
    by (simp add: csv_row_def for_nodes_def)
qed

lemma loop_body_rows:
  "set (rows_of (s_events (fst (loop_body os c iter st))))
   \<subseteq> set (rows_of (s_events st)) \<union> Collect (row_of_run os (c_numa_count c))"
  by (auto simp: loop_body_def Let_def row_of_run_def split: prod.splits option.splits)

lemma sampling_loop_rows:
  "set (rows_of (s_events (fst (sampling_loop os c fuel iter st))))
   \<subseteq> set (rows_of (s_events st)) \<union> Collect (row_of_run os (c_numa_count c))"
proof (induction fuel arbitrary: iter st)
  case 0
  then show ?case by simp
next
  case (Suc fuel)
  obtain st' how where body: "loop_body os c iter st = (st', how)"
    by (cases "loop_body os c iter st")
  have st': "set (rows_of (s_events st'))
             \<subseteq> set (rows_of (s_events st)) \<union> Collect (row_of_run os (c_numa_count c))"
    using loop_body_rows [of os c iter st] body by simp
  show ?case
  proof (cases how)
    case Next
    with body st' Suc.IH [of "Suc iter" st'] show ?thesis
      by auto
  qed (use body st' in auto)
qed

lemma logger_sample_cases:
  "(lr_events (logger_sample os fuel n iv ud d ur ra) = []
      \<and> lr_end (logger_sample os fuel n iv ud d ur ra) \<noteq> Exit 0
      \<and> lr_end (logger_sample os fuel n iv ud d ur ra) \<noteq> Unfinished)
   \<or> (\<exists>its. logger_sample os fuel n iv ud d ur ra
          = run_sampling os fuel
              \<lparr>c_numa_count = n, c_interval_sec = iv, c_use_duration = ud,
               c_iterations = its, c_use_run = ur\<rparr>
              (existing_or_header os n))"
  by (cases "l_csv os")
    (auto simp: logger_sample_def fatal_def write_csv_header_def existing_or_header_def
      split: option.split)

lemma logger_main_cases:
  "(lr_events (logger_main os fuel argv) = []
      \<and> lr_end (logger_main os fuel argv) \<noteq> Exit 0
      \<and> lr_end (logger_main os fuel argv) \<noteq> Unfinished)
   \<or> (\<exists>its ud. logger_main os fuel argv
          = run_sampling os fuel
              \<lparr>c_numa_count = l_atoi os (argv ! 1), c_interval_sec = l_atof os (argv ! 2),
               c_use_duration = ud, c_iterations = its, c_use_run = (argv ! 3 = ''-r'')\<rparr>
              (existing_or_header os (l_atoi os (argv ! 1))))"
proof -
  let ?n = "l_atoi os (argv ! 1)" and ?iv = "l_atof os (argv ! 2)"
  have "(\<exists>d. logger_main os fuel argv = fatal d (l_csv os))
        \<or> (argv ! 3 = ''-d'' \<and> logger_main os fuel argv
              = logger_sample os fuel ?n ?iv True (l_atoi os (argv ! 4)) False [])
        \<or> (argv ! 3 = ''-r'' \<and> logger_main os fuel argv
              = logger_sample os fuel ?n ?iv False 0 True (drop 4 argv))"
    by (auto simp: logger_main_def Let_def)
  then consider (stop) "\<exists>d. logger_main os fuel argv = fatal d (l_csv os)"
    | (dur) "argv ! 3 = ''-d''"
        "logger_main os fuel argv = logger_sample os fuel ?n ?iv True (l_atoi os (argv ! 4)) False []"
    | (run) "argv ! 3 = ''-r''"
        "logger_main os fuel argv = logger_sample os fuel ?n ?iv False 0 True (drop 4 argv)"
    by blast
  then show ?thesis
  proof cases
    case stop
    then show ?thesis
      by (auto simp: fatal_def)
  next
    case dur
    with logger_sample_cases [of os fuel ?n ?iv True "l_atoi os (argv ! 4)" False "[]"]
    show ?thesis
      by auto
  next
    case run
    with logger_sample_cases [of os fuel ?n ?iv False 0 True "drop 4 argv"]
    show ?thesis
      by auto
  qed
qed

lemma after_loop_events:
  "\<exists>tl. lr_events (after_loop os c (st, how)) = s_events st @ tl
        \<and> (tl = [] \<or> (\<exists>ret. tl = [Waitpid_blocking ret]))"
  by (cases how) (auto simp: after_loop_def split: option.split)

lemma after_loop_csv: "lr_csv (after_loop os c (st, how)) = Some (s_csv st)"
  by (cases how) (auto simp: after_loop_def split: option.split)

lemma run_sampling_rows:
  "set (rows_of (lr_events (run_sampling os fuel c content))) \<subseteq> Collect (row_of_run os (c_numa_count c))"
proof -
  obtain st how where res: "sampling_loop os c fuel 0 (initial_state os c content) = (st, how)"
    by (cases "sampling_loop os c fuel 0 (initial_state os c content)")
  from after_loop_events [of os c st how] obtain tl
    where "lr_events (after_loop os c (st, how)) = s_events st @ tl" and "rows_of tl = []"
    by auto
  moreover have "set (rows_of (s_events st)) \<subseteq> Collect (row_of_run os (c_numa_count c))"
    using sampling_loop_rows [of os c fuel 0 "initial_state os c content"] res
    by (simp add: initial_state_def)
  ultimately show ?thesis
    by (simp add: run_sampling_def res)
qed

lemma logger_main_rows:
  "set (rows_of (lr_events (logger_main os fuel argv)))
   \<subseteq> Collect (row_of_run os (l_atoi os (argv ! 1)))"
  using logger_main_cases [of os fuel argv] run_sampling_rows [of os fuel]
  by (elim disjE exE) (simp, fastforce)

lemma sint_word_of_nat_64: "m < 2 ^ 63 \<Longrightarrow> sint (word_of_nat m :: c_long) = int m"
  by (simp add: signed_of_nat signed_take_bit_int_eq_self)

lemma example_clock_nsec:
  "sint (tv_nsec (l_clock example_machine k)) = int (k mod 10) * 100000000 + 42"
proof -
  have "(of_nat (k mod 10) * 100000000 + 42 :: c_long) = word_of_nat (k mod 10 * 100000000 + 42)"
    by simp
  moreover have "k mod 10 * 100000000 + 42 < 2 ^ 63"
  proof -
    have "k mod 10 * 100000000 + 42 \<le> 9 * 100000000 + 42"
      by (intro add_mono mult_le_mono) simp_all
    then show ?thesis
      by simp
  qed
  ultimately have "sint (of_nat (k mod 10) * 100000000 + 42 :: c_long)
                   = int (k mod 10 * 100000000 + 42)"
    by (simp only: sint_word_of_nat_64)
  then show ?thesis
    by (simp add: example_machine_def)
qed

lemma example_clock_ok:
  "0 \<le> sint (tv_nsec (l_clock example_machine k))
   \<and> sint (tv_nsec (l_clock example_machine k)) \<le> 999999999"
proof -
  have "int (k mod 10) \<le> 9"
    by simp
  then show ?thesis
    unfolding example_clock_nsec by linarith
qed

text \<open>
  C7: the clock giving nanoseconds within a second, as \<^verbatim>\<open>clock_gettime\<close> does, every row
  a run writes splits on commas into \<open>1 + 2 n + 7 n + 8\<close> fields for the \<open>n\<close> given as
  \<^verbatim>\<open>numa_count\<close>, as many as the header for that \<open>n\<close> has, and starts with the seconds
  of a clock reading, a point, and its nanoseconds in exactly nine digits.
\<close>

theorem row_fields:
  assumes "\<forall>k. 0 \<le> sint (tv_nsec (l_clock os k)) \<and> sint (tv_nsec (l_clock os k)) \<le> 999999999"
    and "row \<in> set (rows_of (lr_events (logger_main os fuel argv)))"
  shows "length (split_commas row)
           = 1 + 2 * nat (sint (l_atoi os (argv ! 1))) + 7 * nat (sint (l_atoi os (argv ! 1))) + 8
         \<and> length (split_commas (csv_header (l_atoi os (argv ! 1)))) = length (split_commas row)
         \<and> (\<exists>k frac rest.
               row = fmt_ld (tv_sec (l_clock os k)) @ ''.'' @ frac @ '','' @ rest
               \<and> length frac = 9 \<and> (\<forall>c \<in> set frac. isdigit c)
               \<and> int (digits_val frac) = sint (tv_nsec (l_clock os k)))"
proof -
  from assms(2) logger_main_rows [of os fuel argv]
  have "row_of_run os (l_atoi os (argv ! 1)) row"
    by blast
  then obtain k nm nv sv where row: "row = csv_row (l_clock os k) nm nv sv (l_atoi os (argv ! 1))"
    unfolding row_of_run_def by blast
  obtain rest where shape: "row = fmt_ld (tv_sec (l_clock os k)) @ ''.''
      @ fmt_09ld (tv_nsec (l_clock os k)) @ '','' @ rest"
    using csv_row_shape [of "l_clock os k" nm nv sv "l_atoi os (argv ! 1)"] row by auto
  have clock: "0 \<le> sint (tv_nsec (l_clock os k))" "sint (tv_nsec (l_clock os k)) \<le> 999999999"
    using assms(1) by simp_all
  have "length (split_commas row)
          = 1 + 2 * nat (sint (l_atoi os (argv ! 1))) + 7 * nat (sint (l_atoi os (argv ! 1))) + 8"
    by (simp add: row length_split_commas commas_csv_row)
  moreover have "length (split_commas (csv_header (l_atoi os (argv ! 1)))) = length (split_commas row)"
    by (simp add: row length_split_commas commas_csv_row commas_csv_header)
  moreover have "\<exists>k frac rest.
               row = fmt_ld (tv_sec (l_clock os k)) @ ''.'' @ frac @ '','' @ rest
               \<and> length frac = 9 \<and> (\<forall>c \<in> set frac. isdigit c)
               \<and> int (digits_val frac) = sint (tv_nsec (l_clock os k))"
    using shape fmt_09ld_nine_digits [OF clock] by blast
  ultimately show ?thesis
    by blast
qed

theorem row_fields_witness:
  "hd (rows_of (lr_events (logger_main example_machine 11 argv_tenth)))
     \<in> set (rows_of (lr_events (logger_main example_machine 11 argv_tenth)))
   \<and> length (split_commas (hd (rows_of (lr_events (logger_main example_machine 11 argv_tenth)))))
       = 27
   \<and> length (split_commas (csv_header 2)) = 27"
proof -
  let ?rows = "rows_of (lr_events (logger_main example_machine 11 argv_tenth))"
  have "length ?rows = 10"
    using duration_run [OF tenth_facts] by simp
  then have mem: "hd ?rows \<in> set ?rows"
    by (cases ?rows) simp_all
  have clock: "\<forall>k. 0 \<le> sint (tv_nsec (l_clock example_machine k))
                 \<and> sint (tv_nsec (l_clock example_machine k)) \<le> 999999999"
    using example_clock_ok by blast
  have n: "l_atoi example_machine (argv_tenth ! 1) = 2"
    by (simp add: argv_tenth_def example_machine_def c_eval)
  from row_fields [OF clock mem, unfolded n] mem show ?thesis
    by simp
qed

subsection \<open>The order of events in a run\<close>

lemma checks_of_simps [simp]:
  "checks_of [] = []"
  "checks_of (a @ b) = checks_of a @ checks_of b"
  "checks_of (Wrote_row r # evs) = checks_of evs"
  "checks_of (Nanosleep ts x # evs) = checks_of evs"
  "checks_of (Waitpid_nohang ret # evs) = Waitpid_nohang ret # checks_of evs"
  "checks_of (Waitpid_blocking ret # evs) = checks_of evs"
  by (simp_all add: checks_of_def)

lemma waits_of_simps [simp]:
  "waits_of [] = []"
  "waits_of (a @ b) = waits_of a @ waits_of b"
  "waits_of (Wrote_row r # evs) = waits_of evs"
  "waits_of (Nanosleep ts x # evs) = waits_of evs"
  "waits_of (Waitpid_nohang ret # evs) = Waitpid_nohang ret # waits_of evs"
  "waits_of (Waitpid_blocking ret # evs) = Waitpid_blocking ret # waits_of evs"
  by (simp_all add: waits_of_def)

lemma rows_before_checks_Nil [simp]: "rows_before_checks []"
  by (simp add: rows_before_checks_def)

lemma rows_before_checks_append:
  assumes "rows_before_checks a" and "rows_before_checks b"
    and "length (checks_of a) \<le> length (rows_of a)"
  shows "rows_before_checks (a @ b)"
  unfolding rows_before_checks_def
proof
  fix n
  show "length (checks_of (take n (a @ b))) \<le> length (rows_of (take n (a @ b)))"
  proof (cases "n \<le> length a")
    case True
    then show ?thesis
      using assms(1) by (simp add: rows_before_checks_def)
  next
    case False
    then have "take n (a @ b) = a @ take (n - length a) b"
      by simp
    then show ?thesis
      using assms(2,3) by (simp add: rows_before_checks_def add_mono)
  qed
qed

lemma rows_before_checks_whole: "rows_before_checks a \<Longrightarrow> length (checks_of a) \<le> length (rows_of a)"
  unfolding rows_before_checks_def by (metis order_refl take_all)

lemma rows_before_checks_block:
  "rows_before_checks (Wrote_row r # Nanosleep ts x # Waitpid_nohang ret # [])"
  "rows_before_checks (Wrote_row r # Nanosleep ts x # [])"
  "rows_before_checks (Wrote_row r # [])"
  unfolding rows_before_checks_def
  by (auto simp: take_Cons split: nat.splits)

text \<open>What one execution of the body adds to the events.\<close>

lemma loop_body_events:
  "\<exists>row blk. s_events (fst (loop_body os c iter st)) = s_events st @ Wrote_row row # blk
      \<and> rows_before_checks (Wrote_row row # blk)
      \<and> s_csv (fst (loop_body os c iter st)) = s_csv st @ row
      \<and> rows_of blk = []"
  by (auto simp: loop_body_def Let_def rows_before_checks_block
      split: prod.splits option.splits)

lemma sampling_loop_events:
  "\<exists>new. s_events (fst (sampling_loop os c fuel iter st)) = s_events st @ new
      \<and> rows_before_checks new
      \<and> s_csv (fst (sampling_loop os c fuel iter st)) = s_csv st @ concat (rows_of new)
      \<and> (0 < fuel \<and> \<not> (c_use_duration c \<and> \<not> int iter < sint (c_iterations c))
           \<longrightarrow> (\<exists>row rest. new = Wrote_row row # rest))"
proof (induction fuel arbitrary: iter st)
  case 0
  then show ?case by simp
next
  case (Suc fuel)
  show ?case
  proof (cases "c_use_duration c \<and> \<not> int iter < sint (c_iterations c)")
    case True
    then show ?thesis by simp
  next
    case False
    obtain st' how where body: "loop_body os c iter st = (st', how)"
      by (cases "loop_body os c iter st")
    from loop_body_events [of os c iter st] body obtain row blk
      where blk: "s_events st' = s_events st @ Wrote_row row # blk"
        "rows_before_checks (Wrote_row row # blk)" "s_csv st' = s_csv st @ row" "rows_of blk = []"
      by auto
    show ?thesis
    proof (cases how)
      case Next
      from Suc.IH [of "Suc iter" st'] obtain new
        where new: "s_events (fst (sampling_loop os c fuel (Suc iter) st')) = s_events st' @ new"
          "rows_before_checks new"
          "s_csv (fst (sampling_loop os c fuel (Suc iter) st')) = s_csv st' @ concat (rows_of new)"
        by blast
      have "rows_before_checks ((Wrote_row row # blk) @ new)"
        using blk(2) new(2) by (intro rows_before_checks_append rows_before_checks_whole)
      with False body Next blk new show ?thesis
        by simp
    next
      case Break
      with False body blk show ?thesis
        by simp
    next
      case Undefined_sleep
      with False body blk show ?thesis
        by simp
    qed
  qed
qed

lemma rows_before_checks_tail:
  assumes "rows_before_checks new" and "fin = [] \<or> (\<exists>ret. fin = [Waitpid_blocking ret])"
  shows "rows_before_checks (new @ fin)"
proof -
  have "rows_before_checks fin"
    using assms(2) by (auto simp: rows_before_checks_def take_Cons split: nat.splits)
  with assms(1) show ?thesis
    by (intro rows_before_checks_append rows_before_checks_whole)
qed

lemma run_sampling_events:
  "\<exists>new fin. lr_events (run_sampling os fuel c content) = new @ fin
      \<and> rows_before_checks new \<and> (fin = [] \<or> (\<exists>ret. fin = [Waitpid_blocking ret]))
      \<and> lr_csv (run_sampling os fuel c content) = Some (content @ concat (rows_of new))
      \<and> (0 < fuel \<and> \<not> (c_use_duration c \<and> \<not> 0 < sint (c_iterations c))
           \<longrightarrow> (\<exists>row rest. new = Wrote_row row # rest))"
proof -
  let ?st0 = "initial_state os c content"
  obtain st how where res: "sampling_loop os c fuel 0 ?st0 = (st, how)"
    by (cases "sampling_loop os c fuel 0 ?st0")
  from sampling_loop_events [of os c fuel 0 ?st0] res obtain new
    where new: "s_events st = new" "rows_before_checks new"
      "s_csv st = content @ concat (rows_of new)"
      "0 < fuel \<and> \<not> (c_use_duration c \<and> \<not> 0 < sint (c_iterations c))
         \<longrightarrow> (\<exists>row rest. new = Wrote_row row # rest)"
    by (auto simp: initial_state_def)
  from after_loop_events [of os c st how] obtain fin
    where fin: "lr_events (after_loop os c (st, how)) = s_events st @ fin"
      "fin = [] \<or> (\<exists>ret. fin = [Waitpid_blocking ret])"
    by blast
  show ?thesis
    using new fin after_loop_csv [of os c st how]
    by (simp add: run_sampling_def res) blast
qed

lemma rows_of_tail: "fin = [] \<or> (\<exists>ret. fin = [Waitpid_blocking ret]) \<Longrightarrow> rows_of fin = []"
  by auto

lemma hd_dec_nat: "\<exists>c cs. dec_nat n = c # cs \<and> isdigit c"
proof (induction n rule: dec_nat.induct)
  case (1 n)
  show ?case
  proof (cases "n < 10")
    case True
    then show ?thesis
      by (subst dec_nat.simps) (simp add: isdigit_digit_char)
  next
    case False
    with 1 obtain c cs where "dec_nat (n div 10) = c # cs" "isdigit c"
      by blast
    with False show ?thesis
      by (subst dec_nat.simps) simp
  qed
qed

lemma dec_int_first: "\<exists>c cs. dec_int i = c # cs \<and> c \<noteq> CHR ''t''"
proof (cases "i < 0")
  case True
  then show ?thesis
    by (simp add: dec_int_def)
next
  case False
  obtain c cs where "dec_nat (nat i) = c # cs" "isdigit c"
    using hd_dec_nat by blast
  moreover have "\<not> isdigit CHR ''t''"
    by (simp add: isdigit_def)
  ultimately show ?thesis
    using False by (auto simp: dec_int_def)
qed

lemma csv_row_first: "\<exists>c cs. csv_row ts nm nv sv n = c # cs \<and> c \<noteq> CHR ''t''"
proof -
  obtain c cs where "fmt_ld (tv_sec ts) = c # cs" "c \<noteq> CHR ''t''"
    using dec_int_first [of "sint (tv_sec ts)"] by (auto simp: fmt_ld_def)
  then show ?thesis
    by (simp add: csv_row_def)
qed

lemma csv_row_not_header: "csv_row ts nm nv sv n \<noteq> csv_header m"
  using csv_row_first [of ts nm nv sv n] by (auto simp: csv_header_def)


subsection \<open>The header\<close>

text \<open>
  C6: a run that gets to sample (it ends with status 0, or is still sampling) leaves in the
  output file what was there before, or the header when there was no file, followed by
  the rows it wrote and nothing else; and no row is a header, whatever the node count. So
  a fresh path gets the header once, and an existing file gets rows only, also when its
  header is for another node count.
\<close>

theorem header_once:
  assumes "lr_end (logger_main os fuel argv) = Exit 0
           \<or> lr_end (logger_main os fuel argv) = Unfinished"
  shows "lr_csv (logger_main os fuel argv)
           = Some (existing_or_header os (l_atoi os (argv ! 1))
                   @ concat (rows_of (lr_events (logger_main os fuel argv))))
         \<and> (\<forall>row \<in> set (rows_of (lr_events (logger_main os fuel argv))). \<forall>m. row \<noteq> csv_header m)"
proof
  from logger_main_cases [of os fuel argv] assms obtain c
    where run: "logger_main os fuel argv
                = run_sampling os fuel c (existing_or_header os (l_atoi os (argv ! 1)))"
    by auto
  from run_sampling_events [of os fuel c "existing_or_header os (l_atoi os (argv ! 1))"]
  obtain new fin where "lr_events (logger_main os fuel argv) = new @ fin"
    and "fin = [] \<or> (\<exists>ret. fin = [Waitpid_blocking ret])"
    and "lr_csv (logger_main os fuel argv)
         = Some (existing_or_header os (l_atoi os (argv ! 1)) @ concat (rows_of new))"
    unfolding run by blast
  then show "lr_csv (logger_main os fuel argv)
           = Some (existing_or_header os (l_atoi os (argv ! 1))
                   @ concat (rows_of (lr_events (logger_main os fuel argv))))"
    using rows_of_tail [of fin] by simp
  show "\<forall>row \<in> set (rows_of (lr_events (logger_main os fuel argv))). \<forall>m. row \<noteq> csv_header m"
  proof (intro ballI allI)
    fix row m
    assume "row \<in> set (rows_of (lr_events (logger_main os fuel argv)))"
    with logger_main_rows [of os fuel argv] have "row_of_run os (l_atoi os (argv ! 1)) row"
      by blast
    then obtain k nm nv sv
      where "row = csv_row (l_clock os k) nm nv sv (l_atoi os (argv ! 1))"
      unfolding row_of_run_def by blast
    then show "row \<noteq> csv_header m"
      by (simp add: csv_row_not_header)
  qed
qed

lemma tenth_facts_with_log:
  "5 \<le> length argv_tenth" "argv_tenth ! 3 = ''-d''"
  "0 < sint (l_atoi machine_with_log (argv_tenth ! 1))"
  "l_atof machine_with_log (argv_tenth ! 2) = Finite (3602879701896397 / 36028797018963968)"
  "(0 :: rat) < 3602879701896397 / 36028797018963968"
  "0 < sint (l_atoi machine_with_log (argv_tenth ! 4))"
  "ddiv (double_of_int (l_atoi machine_with_log (argv_tenth ! 4)))
     (Finite (3602879701896397 / 36028797018963968)) = Finite 10"
  "(10 :: rat) < 2 ^ 31"
  "dmul (Finite (3602879701896397 / 36028797018963968)) (Finite 1000000000) = Finite 100000000"
  "(100000000 :: rat) < 2 ^ 63"
  "l_malloc machine_with_log (8 * nat (sint (l_atoi machine_with_log (argv_tenth ! 1))))"
  "l_malloc machine_with_log (28 * nat (sint (l_atoi machine_with_log (argv_tenth ! 1))))"
  "l_csv machine_with_log = None \<longrightarrow> l_csv_create machine_with_log"
  "l_csv_append machine_with_log"
  "nat \<lfloor>10 :: rat\<rfloor> < 11"
  using tenth_facts by (simp_all add: machine_with_log_def)

theorem header_once_witness:
  "lr_end (logger_main example_machine 11 argv_tenth) = Exit 0
   \<and> lr_csv (logger_main example_machine 11 argv_tenth)
       = Some (csv_header 2 @ concat (rows_of (lr_events (logger_main example_machine 11 argv_tenth))))
   \<and> hd (rows_of (lr_events (logger_main example_machine 11 argv_tenth))) \<noteq> csv_header 2
   \<and> lr_end (logger_main machine_with_log 11 argv_tenth) = Exit 0
   \<and> lr_csv (logger_main machine_with_log 11 argv_tenth)
       = Some (csv_header 1 @ concat (rows_of (lr_events (logger_main machine_with_log 11 argv_tenth))))"
proof -
  let ?fresh = "logger_main example_machine 11 argv_tenth"
  let ?again = "logger_main machine_with_log 11 argv_tenth"
  have e1: "lr_end ?fresh = Exit 0" and n1: "length (rows_of (lr_events ?fresh)) = 10"
    using duration_run [OF tenth_facts] by simp_all
  have e2: "lr_end ?again = Exit 0"
    using duration_run [OF tenth_facts_with_log] by simp
  have mem: "hd (rows_of (lr_events ?fresh)) \<in> set (rows_of (lr_events ?fresh))"
    using n1 by (cases "rows_of (lr_events ?fresh)") simp_all
  have h1: "existing_or_header example_machine (l_atoi example_machine (argv_tenth ! 1))
            = csv_header 2"
    by (simp add: existing_or_header_def example_machine_def argv_tenth_def c_eval)
  have h2: "existing_or_header machine_with_log (l_atoi machine_with_log (argv_tenth ! 1))
            = csv_header 1"
    by (simp add: existing_or_header_def machine_with_log_def)
  from e1 have "lr_end ?fresh = Exit 0 \<or> lr_end ?fresh = Unfinished"
    by simp
  from header_once [OF this, unfolded h1] mem
  have "lr_csv ?fresh = Some (csv_header 2 @ concat (rows_of (lr_events ?fresh)))"
    and "hd (rows_of (lr_events ?fresh)) \<noteq> csv_header 2"
    by blast+
  moreover from e2 have "lr_end ?again = Exit 0 \<or> lr_end ?again = Unfinished"
    by simp
  from header_once [OF this, unfolded h2]
  have "lr_csv ?again = Some (csv_header 1 @ concat (rows_of (lr_events ?again)))"
    by blast
  ultimately show ?thesis
    using e1 e2 by simp
qed


subsection \<open>Run mode\<close>

lemma loop_body_run:
  assumes "c_use_run c" and "sleep_request (c_interval_sec c) = Some ts"
    and "l_child_exit os = Some e" and "l_fork os \<noteq> 0" and "s_child st = Child_running"
  shows "snd (loop_body os c iter st) = (if e \<le> iter then Break else Next)"
    and "s_child (fst (loop_body os c iter st)) = (if e \<le> iter then Child_reaped else Child_running)"
    and "\<exists>row. s_events (fst (loop_body os c iter st))
           = s_events st @ [Wrote_row row, Nanosleep ts (nanosleep ts),
                            Waitpid_nohang (if e \<le> iter then l_fork os else 0)]"
  using assms by (simp_all add: loop_body_def Let_def waitpid_nohang_def split: prod.splits)

lemma run_loop:
  assumes "\<not> c_use_duration c" and "c_use_run c"
    and "sleep_request (c_interval_sec c) = Some ts"
    and "l_child_exit os = Some e" and "l_fork os \<noteq> 0"
  shows "s_child st = Child_running \<Longrightarrow> iter \<le> e \<Longrightarrow> e - iter < fuel \<Longrightarrow>
         snd (sampling_loop os c fuel iter st) = Finished
         \<and> s_child (fst (sampling_loop os c fuel iter st)) = Child_reaped
         \<and> length (rows_of (s_events (fst (sampling_loop os c fuel iter st))))
           = length (rows_of (s_events st)) + (e - iter) + 1
         \<and> waits_of (s_events (fst (sampling_loop os c fuel iter st)))
           = waits_of (s_events st) @ replicate (e - iter) (Waitpid_nohang 0)
             @ [Waitpid_nohang (l_fork os)]"
proof (induction fuel arbitrary: iter st)
  case 0
  then show ?case by simp
next
  case (Suc fuel)
  obtain st' how where body: "loop_body os c iter st = (st', how)"
    by (cases "loop_body os c iter st")
  note b = loop_body_run [OF assms(2,3,4,5) Suc.prems(1), of iter]
  from b(3) body obtain row where ev: "s_events st'
      = s_events st @ [Wrote_row row, Nanosleep ts (nanosleep ts),
                       Waitpid_nohang (if e \<le> iter then l_fork os else 0)]"
    by auto
  show ?case
  proof (cases "e \<le> iter")
    case True
    with Suc.prems have "e = iter"
      by simp
    with b(1,2) body ev assms(1) show ?thesis
      by simp
  next
    case False
    with b(1,2) body have how: "how = Next" and ch: "s_child st' = Child_running"
      by simp_all
    have more: "e - iter = Suc (e - Suc iter)"
      using False by simp
    have "snd (sampling_loop os c fuel (Suc iter) st') = Finished
         \<and> s_child (fst (sampling_loop os c fuel (Suc iter) st')) = Child_reaped
         \<and> length (rows_of (s_events (fst (sampling_loop os c fuel (Suc iter) st'))))
           = length (rows_of (s_events st')) + (e - Suc iter) + 1
         \<and> waits_of (s_events (fst (sampling_loop os c fuel (Suc iter) st')))
           = waits_of (s_events st') @ replicate (e - Suc iter) (Waitpid_nohang 0)
             @ [Waitpid_nohang (l_fork os)]"
      using False Suc.prems ch by (intro Suc.IH) simp_all
    with False body how ev assms(1) show ?thesis
      by (simp add: more)
  qed
qed

lemma run_mode_main:
  assumes "5 \<le> length argv" and "argv ! 3 = ''-r''"
    and "0 < sint (l_atoi os (argv ! 1))"
    and "\<not> d_le_zero (l_atof os (argv ! 2))"
    and "l_malloc os (8 * nat (sint (l_atoi os (argv ! 1))))"
    and "l_malloc os (28 * nat (sint (l_atoi os (argv ! 1))))"
    and "l_csv os = None \<longrightarrow> l_csv_create os" and "l_csv_append os"
    and "l_fork os \<noteq> 0"
  shows "logger_main os fuel argv
         = run_sampling os fuel
             \<lparr>c_numa_count = l_atoi os (argv ! 1), c_interval_sec = l_atof os (argv ! 2),
              c_use_duration = False, c_iterations = 0, c_use_run = True\<rparr>
             (existing_or_header os (l_atoi os (argv ! 1)))"
proof -
  have "write_csv_header (l_csv os) (l_csv_create os) (l_atoi os (argv ! 1))
        = Inr (existing_or_header os (l_atoi os (argv ! 1)))"
    using assms(7) by (cases "l_csv os") (simp_all add: write_csv_header_def existing_or_header_def)
  with assms show ?thesis
    by (simp add: logger_main_def logger_sample_def Let_def)
qed

lemma child_exit_run:
  assumes "5 \<le> length argv" and "argv ! 3 = ''-r''"
    and "0 < sint (l_atoi os (argv ! 1))"
    and "\<not> d_le_zero (l_atof os (argv ! 2))"
    and "sleep_request (l_atof os (argv ! 2)) = Some ts"
    and "l_malloc os (8 * nat (sint (l_atoi os (argv ! 1))))"
    and "l_malloc os (28 * nat (sint (l_atoi os (argv ! 1))))"
    and "l_csv os = None \<longrightarrow> l_csv_create os" and "l_csv_append os"
    and "0 <s l_fork os" and "l_child_exit os = Some e" and "e < fuel"
  shows "lr_end (logger_main os fuel argv) = Exit 0
         \<and> length (rows_of (lr_events (logger_main os fuel argv))) = e + 1
         \<and> waits_of (lr_events (logger_main os fuel argv))
           = replicate e (Waitpid_nohang 0) @ [Waitpid_nohang (l_fork os), Waitpid_blocking (- 1)]"
proof -
  let ?c = "\<lparr>c_numa_count = l_atoi os (argv ! 1), c_interval_sec = l_atof os (argv ! 2),
              c_use_duration = False, c_iterations = 0, c_use_run = True\<rparr>"
  let ?st0 = "initial_state os ?c (existing_or_header os (l_atoi os (argv ! 1)))"
  have fork: "l_fork os \<noteq> 0"
    using assms(10) by auto
  have main: "logger_main os fuel argv
              = run_sampling os fuel ?c (existing_or_header os (l_atoi os (argv ! 1)))"
    using assms(1-4,6-9) fork by (rule run_mode_main)
  obtain st how where res: "sampling_loop os ?c fuel 0 ?st0 = (st, how)"
    by (cases "sampling_loop os ?c fuel 0 ?st0")
  have "snd (sampling_loop os ?c fuel 0 ?st0) = Finished
         \<and> s_child (fst (sampling_loop os ?c fuel 0 ?st0)) = Child_reaped
         \<and> length (rows_of (s_events (fst (sampling_loop os ?c fuel 0 ?st0))))
           = length (rows_of (s_events ?st0)) + (e - 0) + 1
         \<and> waits_of (s_events (fst (sampling_loop os ?c fuel 0 ?st0)))
           = waits_of (s_events ?st0) @ replicate (e - 0) (Waitpid_nohang 0)
             @ [Waitpid_nohang (l_fork os)]"
    using assms(5,10,11,12) fork
    by (intro run_loop [where ts = ts]) (simp_all add: initial_state_def)
  with res have "how = Finished" "s_child st = Child_reaped"
    "length (rows_of (s_events st)) = e + 1"
    "waits_of (s_events st) = replicate e (Waitpid_nohang 0) @ [Waitpid_nohang (l_fork os)]"
    by (simp_all add: initial_state_def)
  moreover have "logger_main os fuel argv = after_loop os ?c (st, how)"
    unfolding main by (simp only: run_sampling_def res)
  ultimately show ?thesis
    by (simp add: after_loop_def waitpid_blocking_def)
qed

lemma first_row_run:
  assumes "5 \<le> length argv" and "argv ! 3 = ''-r''"
    and "0 < sint (l_atoi os (argv ! 1))"
    and "\<not> d_le_zero (l_atof os (argv ! 2))"
    and "l_malloc os (8 * nat (sint (l_atoi os (argv ! 1))))"
    and "l_malloc os (28 * nat (sint (l_atoi os (argv ! 1))))"
    and "l_csv os = None \<longrightarrow> l_csv_create os" and "l_csv_append os"
    and "l_fork os \<noteq> 0" and "0 < fuel"
  shows "(\<exists>row rest. lr_events (logger_main os fuel argv) = Wrote_row row # rest)
         \<and> 1 \<le> length (rows_of (lr_events (logger_main os fuel argv)))
         \<and> rows_before_checks (lr_events (logger_main os fuel argv))"
proof -
  let ?c = "\<lparr>c_numa_count = l_atoi os (argv ! 1), c_interval_sec = l_atof os (argv ! 2),
              c_use_duration = False, c_iterations = 0, c_use_run = True\<rparr>"
  have main: "logger_main os fuel argv
              = run_sampling os fuel ?c (existing_or_header os (l_atoi os (argv ! 1)))"
    using assms(1-9) by (rule run_mode_main)
  from run_sampling_events [of os fuel ?c "existing_or_header os (l_atoi os (argv ! 1))"]
  obtain new fin where ev: "lr_events (logger_main os fuel argv) = new @ fin"
    and ord: "rows_before_checks new" and fin: "fin = [] \<or> (\<exists>ret. fin = [Waitpid_blocking ret])"
    and first: "0 < fuel \<and> \<not> (c_use_duration ?c \<and> \<not> 0 < sint (c_iterations ?c))
                \<longrightarrow> (\<exists>row rest. new = Wrote_row row # rest)"
    unfolding main by blast
  from first assms(10) obtain row rest where new: "new = Wrote_row row # rest"
    by auto
  have "rows_before_checks (new @ fin)"
    using ord fin by (rule rows_before_checks_tail)
  with ev new show ?thesis
    by simp
qed

text \<open>
  C8: in run mode, with valid arguments, an interval whose nanoseconds fit a \<^verbatim>\<open>long\<close>,
  and a child that the check of iteration \<open>e\<close> is the first to find terminated, the loop
  ends with that very iteration: \<open>e + 1\<close> rows, \<open>e\<close> checks that return 0, then the check
  that returns the child's process id, which reaps it; the blocking \<^verbatim>\<open>waitpid\<close> after the
  loop finds no child left and returns \<open>-1\<close>; the exit status is 0.
\<close>

theorem child_exit_ends_run:
  assumes "5 \<le> length argv" and "argv ! 3 = ''-r''"
    and "0 < sint (l_atoi os (argv ! 1))"
    and "\<not> d_le_zero (l_atof os (argv ! 2))"
    and "sleep_request (l_atof os (argv ! 2)) = Some ts"
    and "l_malloc os (8 * nat (sint (l_atoi os (argv ! 1))))"
    and "l_malloc os (28 * nat (sint (l_atoi os (argv ! 1))))"
    and "l_csv os = None \<longrightarrow> l_csv_create os" and "l_csv_append os"
    and "0 <s l_fork os" and "l_child_exit os = Some e" and "e < fuel"
  shows "lr_end (logger_main os fuel argv) = Exit 0
         \<and> length (rows_of (lr_events (logger_main os fuel argv))) = e + 1
         \<and> waits_of (lr_events (logger_main os fuel argv))
           = replicate e (Waitpid_nohang 0) @ [Waitpid_nohang (l_fork os), Waitpid_blocking (- 1)]"
  using assms by (rule child_exit_run)

lemma tenth_request:
  "sleep_request (Finite (3602879701896397 / 36028797018963968))
   = Some \<lparr>tv_sec = 0, tv_nsec = 100000000\<rparr>"
  using tenth_nanoseconds by (simp add: sleep_request_def trunc_to_int_def)

lemma run_facts:
  "5 \<le> length argv_run" "argv_run ! 3 = ''-r''"
  "0 < sint (l_atoi example_machine (argv_run ! 1))"
  "\<not> d_le_zero (l_atof example_machine (argv_run ! 2))"
  "sleep_request (l_atof example_machine (argv_run ! 2)) = Some \<lparr>tv_sec = 0, tv_nsec = 100000000\<rparr>"
  "l_malloc example_machine (8 * nat (sint (l_atoi example_machine (argv_run ! 1))))"
  "l_malloc example_machine (28 * nat (sint (l_atoi example_machine (argv_run ! 1))))"
  "l_csv example_machine = None \<longrightarrow> l_csv_create example_machine"
  "l_csv_append example_machine"
  "0 <s l_fork example_machine"
proof -
  have iv: "l_atof example_machine (argv_run ! 2) = Finite (3602879701896397 / 36028797018963968)"
    by (simp add: argv_run_def example_machine_def atof_tenth)
  show "\<not> d_le_zero (l_atof example_machine (argv_run ! 2))"
    unfolding iv by simp
  show "sleep_request (l_atof example_machine (argv_run ! 2))
        = Some \<lparr>tv_sec = 0, tv_nsec = 100000000\<rparr>"
    unfolding iv by (rule tenth_request)
  show "0 <s l_fork example_machine"
    by (simp add: example_machine_def word_sless_alt)
qed (simp_all add: argv_run_def example_machine_def c_eval)

theorem child_exit_ends_run_witness:
  "l_child_exit example_machine = Some 2 \<and> l_fork example_machine = 4711
   \<and> lr_end (logger_main example_machine 3 argv_run) = Exit 0
   \<and> length (rows_of (lr_events (logger_main example_machine 3 argv_run))) = 3
   \<and> waits_of (lr_events (logger_main example_machine 3 argv_run))
       = [Waitpid_nohang 0, Waitpid_nohang 0, Waitpid_nohang 4711, Waitpid_blocking (- 1)]"
proof -
  have e: "l_child_exit example_machine = Some 2" and f: "l_fork example_machine = 4711"
    by (simp_all add: example_machine_def)
  have "(2 :: nat) < 3"
    by simp
  from child_exit_ends_run [OF run_facts e this] e f show ?thesis
    by (simp add: numeral_2_eq_2)
qed

text \<open>
  C10: in run mode, with valid arguments and the allocations and the output file in
  order, the first thing the parent does in the loop is to write a row; so with any fuel
  at all there is a row, whether or not the child is still there (or was ever forked),
  and at every moment of the run the rows written are at least as many as the checks of
  the child made.
\<close>

theorem first_row_before_check:
  assumes "5 \<le> length argv" and "argv ! 3 = ''-r''"
    and "0 < sint (l_atoi os (argv ! 1))"
    and "\<not> d_le_zero (l_atof os (argv ! 2))"
    and "l_malloc os (8 * nat (sint (l_atoi os (argv ! 1))))"
    and "l_malloc os (28 * nat (sint (l_atoi os (argv ! 1))))"
    and "l_csv os = None \<longrightarrow> l_csv_create os" and "l_csv_append os"
    and "l_fork os \<noteq> 0" and "0 < fuel"
  shows "(\<exists>row rest. lr_events (logger_main os fuel argv) = Wrote_row row # rest)
         \<and> 1 \<le> length (rows_of (lr_events (logger_main os fuel argv)))
         \<and> rows_before_checks (lr_events (logger_main os fuel argv))"
  using assms by (rule first_row_run)

theorem first_row_before_check_witness:
  "l_child_exit machine_child_gone = Some 0
   \<and> 1 \<le> length (rows_of (lr_events (logger_main machine_child_gone 1 argv_run)))
   \<and> rows_before_checks (lr_events (logger_main machine_child_gone 1 argv_run))
   \<and> waits_of (lr_events (logger_main machine_child_gone 1 argv_run))
       = [Waitpid_nohang 4711, Waitpid_blocking (- 1)]"
proof -
  have facts: "5 \<le> length argv_run" "argv_run ! 3 = ''-r''"
    "0 < sint (l_atoi machine_child_gone (argv_run ! 1))"
    "\<not> d_le_zero (l_atof machine_child_gone (argv_run ! 2))"
    "l_malloc machine_child_gone (8 * nat (sint (l_atoi machine_child_gone (argv_run ! 1))))"
    "l_malloc machine_child_gone (28 * nat (sint (l_atoi machine_child_gone (argv_run ! 1))))"
    "l_csv machine_child_gone = None \<longrightarrow> l_csv_create machine_child_gone"
    "l_csv_append machine_child_gone"
    using run_facts by (simp_all add: machine_child_gone_def)
  have sl: "sleep_request (l_atof machine_child_gone (argv_run ! 2))
            = Some \<lparr>tv_sec = 0, tv_nsec = 100000000\<rparr>"
    and fk: "0 <s l_fork machine_child_gone"
    using run_facts by (simp_all add: machine_child_gone_def)
  have f0: "l_fork machine_child_gone \<noteq> 0" and f: "l_fork machine_child_gone = 4711"
    by (simp_all add: machine_child_gone_def example_machine_def)
  have e: "l_child_exit machine_child_gone = Some 0"
    by (simp add: machine_child_gone_def)
  have "(0 :: nat) < 1"
    by simp
  from first_row_before_check [OF facts f0 this]
    child_exit_run [OF facts(1-4) sl facts(5-8) fk e this] e f
  show ?thesis
    by simp
qed


end
